theory Spec2Isabelle
  imports Complex_Main "HOL-Library.AList" "HOL-Library.Log_Nat"
begin

section \<open>Prompt Battle: room registry, submission gate, round phases and scoring\<close>

text \<open>
  A shallow embedding of the server of the repository: \<^verbatim>\<open>roomManager.js\<close> (the registry of
  rooms), \<^verbatim>\<open>gameLogic.js\<close> (the round loop \<^verbatim>\<open>startGame\<close>, the submission gate and the
  similarity metric) and the socket handlers of the server entry point.

  Conventions of the model.
  \<^item> A JavaScript \<^verbatim>\<open>Map\<close> and an object used as a dictionary are association lists with
    distinct keys, in insertion order: \<^verbatim>\<open>set\<close> is \<open>AList.update\<close> (replace in place, or append),
    \<^verbatim>\<open>delete\<close> is \<open>AList.delete\<close>, \<^verbatim>\<open>get\<close> is \<open>map_of\<close>, \<^verbatim>\<open>keys()\<close> is \<open>map fst\<close>.
  \<^item> A function that mutates a room returns the room it leaves behind; the registry is passed
    in and returned.
  \<^item> An exception is a value of type \<open>error\<close>.
  \<^item> The strings that the similarity metric reads (the prompts) are lists of UTF-16 code
    units, as in JavaScript. \<^verbatim>\<open>String.prototype.toLowerCase\<close> is a parameter of the functions that
    use it. Room codes, socket ids, names and messages are lists of characters.
  \<^item> A JavaScript number is a double: the value of an arithmetic operation is the exact result
    rounded to the nearest double.
  \<^item> The OpenAI client is outside the program: it is a function that gives, for the prompt
    sent, the outcome of the API call.
  \<^item> Socket.IO broadcasts (\<^verbatim>\<open>io.in(...).emit\<close>) and console output are not modelled.
  \<^item> \<^verbatim>\<open>startGame\<close> is an asynchronous function: between two of its suspension points it runs
    without interruption, and at a suspension point the handlers of other requests and timer
    callbacks may run. Each uninterrupted block is a function of the model; an interleaving is
    written as the composition of blocks, handlers and callbacks in the order in which they run.
    For the replies of the \<^verbatim>\<open>start-game\<close> handler, which awaits the whole of \<^verbatim>\<open>startGame\<close>, the
    calls of \<^verbatim>\<open>startGame\<close> on a room are run by an event loop, with the point where each call is
    suspended.
\<close>

subsection \<open>Data model\<close>

type_synonym socket_id = string

text \<open>A JavaScript string as the list of its UTF-16 code units, and the code units of a
  literal of ASCII characters.\<close>

type_synonym js_string = "nat list"

definition code_units :: "string \<Rightarrow> js_string" where
  "code_units s = map of_char s"

text \<open>The value stored for an image: \<^verbatim>\<open>null\<close>, \<^verbatim>\<open>undefined\<close>, or a string (a URL or a data
  URI).\<close>

datatype js_image = Null | Undefined | Image string

datatype game_state =
  WAITING | STARTING | SHOWING_IMAGE | WRITING_PROMPT | GENERATING_IMAGES | VOTING
  | SHOWING_RESULTS | GAME_OVER

datatype error = TypeError string | Error string

fun error_message :: "error \<Rightarrow> string" where
  "error_message (TypeError m) = m"
| "error_message (Error m) = m"

text \<open>The player entry built by \<^verbatim>\<open>createRoom\<close> and \<^verbatim>\<open>joinRoom\<close>
  (\<^verbatim>\<open>{id, name, score, ready, prompt, image}\<close>).\<close>

record player =
  player_id :: socket_id
  name :: string
  score :: int
  ready :: bool
  prompt :: "string option"
  player_image :: "string option"

text \<open>The configuration as the client sends it (a field may be missing) and as the room
  stores it.\<close>

record config_in =
  in_rounds :: "int option"
  in_difficulty :: "string option"
  in_categories :: "string list option"
  in_mode :: "string option"
  in_playerName :: "string option"

record config =
  rounds :: int
  difficulty :: string
  categories :: "string list"
  mode :: string

text \<open>\<^verbatim>\<open>room.roundData\<close> as \<^verbatim>\<open>startGame\<close> resets it at the start of every round. In
  \<open>originalPrompt\<close> the value \<open>None\<close> is JavaScript's \<^verbatim>\<open>null\<close>.\<close>

record round_data =
  originalPrompt :: "js_string option"
  originalImage :: js_image
  prompts :: "(socket_id \<times> js_string) list"
  images :: "(socket_id \<times> js_image) list"
  scores :: "(socket_id \<times> int) list"

text \<open>The three shapes \<^verbatim>\<open>room.roundData\<close> can have: a falsy value (the guard of
  \<^verbatim>\<open>handlePromptSubmission\<close> tests for it), the empty object \<^verbatim>\<open>{}\<close> that \<^verbatim>\<open>createRoom\<close>
  stores, and the record of a round.\<close>

datatype round_slot = No_value | Empty_object | Round round_data

text \<open>A room. \<open>resolvePromptPromise\<close> is \<^verbatim>\<open>room._resolvePromptPromise\<close>: \<open>Some g\<close> holds the
  resolver of the promise that the \<open>g\<close>-th call of \<^verbatim>\<open>waitForPrompts\<close> returned, \<open>None\<close> is
  \<^verbatim>\<open>null\<close> or \<^verbatim>\<open>undefined\<close>. The field \<^verbatim>\<open>timers\<close> is never read or written again and is left out.\<close>

record room =
  code :: string
  host :: socket_id
  config :: config
  players :: "(socket_id \<times> player) list"
  state :: game_state
  currentRound :: int
  roundData :: round_slot
  resolvePromptPromise :: "nat option"

type_synonym rooms = "(string \<times> room) list"

subsection \<open>roomManager.js\<close>

text \<open>\<^verbatim>\<open>x || d\<close> on an optional string: \<^verbatim>\<open>undefined\<close> and the empty string are falsy.\<close>

definition or_default :: "string option \<Rightarrow> string \<Rightarrow> string" where
  "or_default v d = (case v of None \<Rightarrow> d | Some s \<Rightarrow> if s = [] then d else s)"

definition has_key :: "'k \<Rightarrow> ('k \<times> 'v) list \<Rightarrow> bool" where
  "has_key k al = (k \<in> set (map fst al))"

definition new_player :: "socket_id \<Rightarrow> string \<Rightarrow> player" where
  "new_player socketId playerName =
     \<lparr>player_id = socketId, name = playerName, score = 0, ready = False,
      prompt = None, player_image = None\<rparr>"

text \<open>
  \<^verbatim>\<open>createRoom(config, socket)\<close>. The random generator is outside the model: \<open>generated\<close> is
  the sequence of codes that successive calls of \<^verbatim>\<open>generateRoomCode()\<close> return, and the
  \<^verbatim>\<open>do ... while (rooms.has(code))\<close> loop takes the first one that is not in use. The result is
  \<open>None\<close> when the loop has not ended on the codes supplied. \<^verbatim>\<open>config?.playerName\<close> tolerates a
  missing configuration, \<^verbatim>\<open>config.rounds\<close> does not and raises a TypeError.
\<close>

definition createRoom ::
  "config_in option \<Rightarrow> socket_id \<Rightarrow> string list \<Rightarrow> rooms \<Rightarrow> (error + string \<times> rooms) option" where
  "createRoom cfg socketId generated rms =
     (case find (\<lambda>c. \<not> has_key c rms) generated of
        None \<Rightarrow> None
      | Some c \<Rightarrow>
          Some (case cfg of
             None \<Rightarrow> Inl (TypeError ''Cannot read properties of undefined (reading rounds)'')
           | Some cf \<Rightarrow>
               let hostPlayer = new_player socketId (or_default (in_playerName cf) ''Host'');
                   rm = \<lparr>code = c, host = socketId,
                         config = \<lparr>rounds = (case in_rounds cf of None \<Rightarrow> 3
                                               | Some n \<Rightarrow> if n = 0 then 3 else n),
                                   difficulty = or_default (in_difficulty cf) ''medium'',
                                   categories = (case in_categories cf of None \<Rightarrow> [''random'']
                                                 | Some cs \<Rightarrow> cs),
                                   mode = or_default (in_mode cf) ''classic''\<rparr>,
                         players = [(socketId, hostPlayer)],
                         state = WAITING, currentRound = 0, roundData = Empty_object,
                         resolvePromptPromise = None\<rparr>
               in Inr (c, AList.update c rm rms)))"

text \<open>\<^verbatim>\<open>parseInt(process.env.MAX_PLAYERS_PER_ROOM || '6', 10)\<close>: the argument is the number the
  environment variable holds, if it is set.\<close>

definition MAX_PLAYERS :: "int option \<Rightarrow> int" where
  "MAX_PLAYERS env = (case env of None \<Rightarrow> 6 | Some n \<Rightarrow> n)"

record join_result =
  success :: bool
  message :: string

definition joinRoom ::
  "int option \<Rightarrow> rooms \<Rightarrow> string \<Rightarrow> socket_id \<Rightarrow> string option \<Rightarrow> join_result \<times> rooms" where
  "joinRoom env rms roomCode socketId playerName =
     (case map_of rms roomCode of
        None \<Rightarrow> (\<lparr>success = False, message = ''Room does not exist.''\<rparr>, rms)
      | Some rm \<Rightarrow>
          if int (length (players rm)) \<ge> MAX_PLAYERS env
          then (\<lparr>success = False, message = ''Room is full.''\<rparr>, rms)
          else (\<lparr>success = True, message = ''Joined room successfully.''\<rparr>,
                AList.update roomCode
                  (rm\<lparr>players := AList.update socketId
                       (new_player socketId (or_default playerName ''Player'')) (players rm)\<rparr>)
                  rms))"

text \<open>
  \<^verbatim>\<open>removePlayer(socketId)\<close>: the loop over \<^verbatim>\<open>rooms.entries()\<close>. \<^verbatim>\<open>if (nextPlayer)\<close> is false
  when there is no next key and also when the key is the empty string. Deleting a room is
  followed by \<^verbatim>\<open>break\<close>: the rooms after it are not visited.
\<close>

fun removePlayer :: "socket_id \<Rightarrow> rooms \<Rightarrow> rooms" where
  "removePlayer socketId [] = []"
| "removePlayer socketId ((c, rm) # rest) =
     (if has_key socketId (players rm)
      then let rm1 = rm\<lparr>players := AList.delete socketId (players rm)\<rparr>
           in if host rm = socketId
              then (case map fst (players rm1) of
                      [] \<Rightarrow> rest
                    | nextPlayer # _ \<Rightarrow>
                        if nextPlayer = [] then rest
                        else (c, rm1\<lparr>host := nextPlayer\<rparr>) # removePlayer socketId rest)
              else (c, rm1) # removePlayer socketId rest
      else (c, rm) # removePlayer socketId rest)"

definition getRoom :: "rooms \<Rightarrow> string \<Rightarrow> room option" where
  "getRoom rms roomCode = map_of rms roomCode"

definition getRoomByPlayer :: "rooms \<Rightarrow> socket_id \<Rightarrow> room option" where
  "getRoomByPlayer rms socketId =
     map_option snd (find (\<lambda>(c, rm). has_key socketId (players rm)) rms)"

subsection \<open>imageGenerator.js\<close>

text \<open>
  The outcome of the API call \<^verbatim>\<open>openai.images.generate({prompt, ...})\<close>: it responds, with or
  without a URL at \<^verbatim>\<open>response?.data?.data?.[0]?.url\<close>, or it rejects (an error of the network or
  of the service, the abort after \<^verbatim>\<open>IMAGE_GENERATION_TIMEOUT\<close>). The client \<^verbatim>\<open>openai\<close> gives the
  outcome for the prompt sent; it is \<open>None\<close> when no API key is set.
\<close>

datatype api_outcome = Responds "string option" | Rejects

type_synonym openai_client = "js_string \<Rightarrow> api_outcome"

definition placeholder :: string where
  "placeholder =
     ''data:image/png;base64,iVBORw0KGgoAAAANSUhEUgAAAAEAAAABCAQAAAC1HAwCAAAAC0lEQVR4nGNgYAAAAAMAASsJTYQAAAAASUVORK5CYII=''"

text \<open>\<^verbatim>\<open>generateOriginalImage(category)\<close> returns \<^verbatim>\<open>{prompt, image}\<close>. Without a client, and when
  the API call rejects (the \<^verbatim>\<open>catch\<close> of the function), the image is the placeholder.\<close>

definition generateOriginalImage :: "openai_client option \<Rightarrow> js_string \<Rightarrow> js_string \<times> js_image" where
  "generateOriginalImage openai category =
     (let prompt = code_units ''A detailed '' @ category
                   @ code_units '' scene generated for a prompt battle game.''
      in case openai of
           None \<Rightarrow> (prompt, Image placeholder)
         | Some api \<Rightarrow>
             (case api prompt of
                Responds (Some imageUrl) \<Rightarrow> (prompt, Image imageUrl)
              | Responds None \<Rightarrow> (prompt, Undefined)
              | Rejects \<Rightarrow> (prompt, Image placeholder)))"

text \<open>\<^verbatim>\<open>generateImageFromPrompt(prompt)\<close> returns \<^verbatim>\<open>{image}\<close>; the result here is that image.
  Every path of the function returns: it never raises.\<close>

definition generateImageFromPrompt :: "openai_client option \<Rightarrow> js_string \<Rightarrow> js_image" where
  "generateImageFromPrompt openai p =
     (case openai of
        None \<Rightarrow> Image placeholder
      | Some api \<Rightarrow>
          (case api p of
             Responds (Some imageUrl) \<Rightarrow> Image imageUrl
           | Responds None \<Rightarrow> Undefined
           | Rejects \<Rightarrow> Image placeholder))"

subsection \<open>gameLogic.js: the similarity metric\<close>

text \<open>\<^verbatim>\<open>\w\<close> of a JavaScript regular expression without the unicode flag: the code units of
  the digits, of the letters \<^verbatim>\<open>A\<close> to \<^verbatim>\<open>Z\<close> and \<^verbatim>\<open>a\<close> to \<^verbatim>\<open>z\<close>, and of the underscore.\<close>

definition is_word_char :: "nat \<Rightarrow> bool" where
  "is_word_char u =
     ((48 \<le> u \<and> u \<le> 57) \<or> (65 \<le> u \<and> u \<le> 90) \<or> u = 95 \<or> (97 \<le> u \<and> u \<le> 122))"

text \<open>
  \<^verbatim>\<open>s.split(/\W+/)\<close>: the pieces of \<open>s\<close> between the maximal runs of non-word characters. A
  run at the start of the string leaves an empty piece before it, a run at the end an empty
  piece after it, and the empty string gives one empty piece.
\<close>

function split_nonword :: "js_string \<Rightarrow> js_string list" where
  "split_nonword s =
     (let tok = takeWhile is_word_char s; rest = dropWhile is_word_char s
      in if rest = [] then [tok]
         else tok # split_nonword (dropWhile (\<lambda>c. \<not> is_word_char c) rest))"
  by pat_completeness auto
termination
proof (relation "measure length")
  show "wf (measure length)" by simp
next
  fix s :: js_string and tok rest
  assume r: "rest = dropWhile is_word_char s" and ne: "rest \<noteq> []"
  from ne obtain c cs where rc: "rest = c # cs" by (cases rest) auto
  with r have "\<not> is_word_char c" by (metis hd_dropWhile list.sel(1) ne)
  then have "dropWhile (\<lambda>c. \<not> is_word_char c) rest = dropWhile (\<lambda>c. \<not> is_word_char c) cs"
    using rc by simp
  moreover have "length (dropWhile (\<lambda>c. \<not> is_word_char c) cs) \<le> length cs"
    by (rule length_dropWhile_le)
  moreover have "length rest \<le> length s" using r by (simp add: length_dropWhile_le)
  ultimately show "(dropWhile (\<lambda>c. \<not> is_word_char c) rest, s) \<in> measure length"
    using rc by simp
qed

declare split_nonword.simps [simp del]

text \<open>
  Double precision. A finite double is a rational number \<open>m * 2 ^ e\<close> with \<open>\<bar>m\<bar> < 2 ^ 53\<close> and
  \<open>- 1074 \<le> e\<close>. \<open>to_double x\<close> is the double nearest to \<open>x\<close>, a tie going to the even
  significand (the rounding of IEEE 754 that JavaScript prescribes for \<^verbatim>\<open>/\<close> and \<^verbatim>\<open>*\<close>):
  \<open>double_exponent x\<close> is the exponent of the unit in the last place at \<open>x\<close>, the one that puts
  \<open>x / 2 ^ e\<close> between \<open>2 ^ 52\<close> and \<open>2 ^ 53\<close>, and not below that of the subnormal numbers.
  Overflow to infinity is not modelled; the numbers of the program stay below 101.
\<close>

definition round_half_even :: "rat \<Rightarrow> int" where
  "round_half_even s =
     (let f = \<lfloor>s\<rfloor>; r = s - of_int f
      in if r < 1 / 2 then f else if 1 / 2 < r then f + 1 else if even f then f else f + 1)"

definition double_exponent :: "rat \<Rightarrow> int" where
  "double_exponent x =
     (let (p, q) = quotient_of x;
          e0 = bitlen p - bitlen q - 53;
          e = (if x < 2 powi (e0 + 53) then e0 else e0 + 1)
      in max e (- 1074))"

definition to_double :: "rat \<Rightarrow> rat" where
  "to_double x =
     (if x = 0 then 0
      else let e = double_exponent \<bar>x\<bar>
           in sgn x * of_int (round_half_even (\<bar>x\<bar> / 2 powi e)) * 2 powi e)"

text \<open>The operators \<^verbatim>\<open>/\<close> and \<^verbatim>\<open>*\<close> on two doubles.\<close>

definition double_div :: "rat \<Rightarrow> rat \<Rightarrow> rat" where
  "double_div x y = to_double (x / y)"

definition double_mult :: "rat \<Rightarrow> rat \<Rightarrow> rat" where
  "double_mult x y = to_double (x * y)"

text \<open>\<^verbatim>\<open>Math.round\<close> of a double: the nearest integer, a tie upwards.\<close>

definition Math_round :: "rat \<Rightarrow> int" where
  "Math_round x = \<lfloor>x + 1 / 2\<rfloor>"

text \<open>
  \<^verbatim>\<open>calculateSimilarity(a, b)\<close>. The numbers of words are integers below \<open>2 ^ 53\<close>, which are
  doubles; the quotient and the product are rounded to doubles, and \<^verbatim>\<open>Math.round\<close> is applied
  to the double product. Both lists of words have at least one element, so the divisor is not
  0.
\<close>

definition calculateSimilarity :: "(js_string \<Rightarrow> js_string) \<Rightarrow> js_string \<Rightarrow> js_string \<Rightarrow> int" where
  "calculateSimilarity toLowerCase a b =
     (if a = [] \<or> b = [] then 0
      else let wordsA = split_nonword (toLowerCase a);
               wordsB = split_nonword (toLowerCase b);
               setA = set wordsA;
               overlap = foldl (\<lambda>n word. if word \<in> setA then n + 1 else n) (0::nat) wordsB;
               maxWords = max (length wordsA) (length wordsB)
           in Math_round (double_mult (double_div (of_nat overlap) (of_nat maxWords)) 100))"

text \<open>\<^verbatim>\<open>toLowerCase\<close> on a string of ASCII characters, for the evaluation of examples.\<close>

definition ascii_toLowerCase :: "js_string \<Rightarrow> js_string" where
  "ascii_toLowerCase s = map (\<lambda>u. if 65 \<le> u \<and> u \<le> 90 then u + 32 else u) s"

definition getWriteDuration :: "string \<Rightarrow> nat" where
  "getWriteDuration d =
     (if d = ''easy'' then 5 * 60 * 1000
      else if d = ''medium'' then 3 * 60 * 1000
      else if d = ''hard'' then 2 * 60 * 1000
      else if d = ''extreme'' then 1 * 60 * 1000
      else 3 * 60 * 1000)"

subsection \<open>The similarity metric in the words of the specification\<close>

text \<open>The words of a string: its maximal runs of word characters, in order.\<close>

function word_tokens :: "js_string \<Rightarrow> js_string list" where
  "word_tokens s =
     (let s' = dropWhile (\<lambda>c. \<not> is_word_char c) s
      in if s' = [] then []
         else takeWhile is_word_char s' # word_tokens (dropWhile is_word_char s'))"
  by pat_completeness auto
termination
proof (relation "measure length")
  show "wf (measure length)" by simp
next
  fix s s' :: js_string
  assume r: "s' = dropWhile (\<lambda>c. \<not> is_word_char c) s" and ne: "s' \<noteq> []"
  from ne obtain c cs where rc: "s' = c # cs" by (cases s') auto
  with r have "is_word_char c" by (metis (mono_tags, lifting) hd_dropWhile list.sel(1) ne)
  then have "dropWhile is_word_char s' = dropWhile is_word_char cs"
    using rc by simp
  moreover have "length (dropWhile is_word_char cs) \<le> length cs"
    by (rule length_dropWhile_le)
  moreover have "length s' \<le> length s" using r by (simp add: length_dropWhile_le)
  ultimately show "(dropWhile is_word_char s', s) \<in> measure length"
    using rc by simp
qed

declare word_tokens.simps [simp del]

text \<open>
  The reference definition, parametrised by the tokenizer, as a property of the result \<open>r\<close>:
  lowercase both strings, tokenize, count the tokens of the candidate that are in the token set
  of the original, divide by the larger number of tokens (score 0 when that is 0), scale to
  0--100 and round to the nearest integer; the score is 0 when either string is empty. An
  integer is nearest to \<open>x\<close> when it is at most \<open>1/2\<close> away from it.
\<close>

definition nearest_integer :: "rat \<Rightarrow> int \<Rightarrow> bool" where
  "nearest_integer x r = (\<bar>x - of_int r\<bar> \<le> 1 / 2)"

definition is_similarity ::
  "(js_string \<Rightarrow> js_string list) \<Rightarrow> (js_string \<Rightarrow> js_string) \<Rightarrow> js_string \<Rightarrow> js_string \<Rightarrow> int \<Rightarrow> bool" where
  "is_similarity tokenize toLowerCase original candidate r =
     (if original = [] \<or> candidate = [] then r = 0
      else let tokensOriginal = tokenize (toLowerCase original);
               tokensCandidate = tokenize (toLowerCase candidate);
               count = length (filter (\<lambda>t. t \<in> set tokensOriginal) tokensCandidate);
               m = max (length tokensOriginal) (length tokensCandidate)
           in if m = 0 then r = 0 else nearest_integer (of_nat count / of_nat m * 100) r)"

text \<open>The tokens with the empty pieces at the two ends: the words, an empty token in front
  when the string starts with a non-word character, an empty token behind when it ends with
  one; the empty string has the one empty token.\<close>

definition leading_empty :: "js_string \<Rightarrow> js_string list" where
  "leading_empty s = (if s \<noteq> [] \<and> \<not> is_word_char (hd s) then [[]] else [])"

definition trailing_empty :: "js_string \<Rightarrow> js_string list" where
  "trailing_empty s = (if s \<noteq> [] \<and> \<not> is_word_char (last s) then [[]] else [])"

definition edge_tokens :: "js_string \<Rightarrow> js_string list" where
  "edge_tokens s = (if s = [] then [[]] else leading_empty s @ word_tokens s @ trailing_empty s)"

text \<open>Two prompts for the evaluation of a tie: forty times the word \<^verbatim>\<open>a\<close>, and twenty-three
  times. All 23 tokens of the second are in the token set of the first, and
  \<^verbatim>\<open>(23 / 40) * 100\<close> is \<^verbatim>\<open>57.49999999999999\<close> in double precision, where the exact value is
  \<open>57 + 1/2\<close>.\<close>

definition forty_words :: js_string where
  "forty_words = code_units ''a'' @ concat (replicate 39 (code_units '' a''))"

definition twenty_three_words :: js_string where
  "twenty_three_words = code_units ''a'' @ concat (replicate 22 (code_units '' a''))"

subsection \<open>gameLogic.js: the submission gate\<close>

text \<open>A prompt counts as submitted when it is truthy: present and not the empty string.\<close>

definition submitted :: "(socket_id \<times> js_string) list \<Rightarrow> socket_id \<Rightarrow> bool" where
  "submitted ps i = (case map_of ps i of None \<Rightarrow> False | Some p \<Rightarrow> p \<noteq> [])"

text \<open>
  \<^verbatim>\<open>waitForPrompts(room, io, ms)\<close> stores the resolver of a new promise in the room and arms a
  timer. The argument \<open>g\<close> names the promise (and the timer armed with it); \<^verbatim>\<open>startGame\<close>
  suspends until the resolver of \<open>g\<close> is called. The timer is never cleared.
\<close>

definition waitForPrompts :: "nat \<Rightarrow> room \<Rightarrow> room" where
  "waitForPrompts g rm = rm\<lparr>resolvePromptPromise := Some g\<rparr>"

text \<open>
  The callback of the timer. It reads the resolver stored in the room at the time it runs.
  The second component of the result is the promise whose resolver the callback called, if
  it called one.
\<close>

definition deadline_fires :: "room \<Rightarrow> room \<times> nat option" where
  "deadline_fires rm =
     (case resolvePromptPromise rm of
        None \<Rightarrow> (rm, None)
      | Some g \<Rightarrow> (rm\<lparr>resolvePromptPromise := None\<rparr>, Some g))"

text \<open>
  \<^verbatim>\<open>handlePromptSubmission(room, socketId, prompt)\<close>. Its only caller has checked that the
  room exists. Writing \<^verbatim>\<open>room.roundData.prompts[socketId]\<close> raises a TypeError when
  \<^verbatim>\<open>roundData\<close> is the empty object, which has no \<^verbatim>\<open>prompts\<close>. The second component of the
  result is the promise whose resolver the call called, if it called one.
\<close>

definition handlePromptSubmission ::
  "room \<Rightarrow> socket_id \<Rightarrow> js_string \<Rightarrow> error + room \<times> nat option" where
  "handlePromptSubmission rm socketId promptText =
     (case roundData rm of
        No_value \<Rightarrow> Inr (rm, None)
      | Empty_object \<Rightarrow> Inl (TypeError ''Cannot set properties of undefined'')
      | Round rd \<Rightarrow>
          let rd1 = rd\<lparr>prompts := AList.update socketId promptText (prompts rd)\<rparr>;
              rm1 = rm\<lparr>roundData := Round rd1\<rparr>
          in (case resolvePromptPromise rm1 of
                None \<Rightarrow> Inr (rm1, None)
              | Some g \<Rightarrow>
                  if list_all (submitted (prompts rd1)) (map fst (players rm1))
                  then Inr (rm1\<lparr>resolvePromptPromise := None\<rparr>, Some g)
                  else Inr (rm1, None)))"

subsection \<open>gameLogic.js: the blocks of startGame\<close>

text \<open>The entry of \<^verbatim>\<open>startGame(room, io)\<close>: the check of the argument and the first
  assignment.\<close>

definition startGame_enter :: "room option \<Rightarrow> error + room" where
  "startGame_enter r =
     (case r of
        None \<Rightarrow> Inl (Error ''Cannot start game: room is undefined'')
      | Some rm \<Rightarrow> Inr (rm\<lparr>state := STARTING\<rparr>))"

text \<open>The start of round \<open>n\<close>: \<^verbatim>\<open>roundData\<close> is replaced and the image is shown.\<close>

definition begin_round :: "int \<Rightarrow> room \<Rightarrow> room" where
  "begin_round n rm =
     rm\<lparr>currentRound := n,
        roundData := Round \<lparr>originalPrompt = None, originalImage = Null,
                            prompts = [], images = [], scores = []\<rparr>,
        state := SHOWING_IMAGE\<rparr>"

text \<open>After the gateway has returned the original prompt and image.\<close>

definition store_original :: "js_string \<Rightarrow> js_image \<Rightarrow> room \<Rightarrow> room" where
  "store_original p img rm =
     (case roundData rm of
        Round rd \<Rightarrow> rm\<lparr>roundData := Round (rd\<lparr>originalPrompt := Some p, originalImage := img\<rparr>)\<rparr>
      | _ \<Rightarrow> rm)"

text \<open>The start of the writing phase, up to the suspension on the gate.\<close>

definition begin_writing :: "nat \<Rightarrow> room \<Rightarrow> room" where
  "begin_writing g rm = waitForPrompts g (rm\<lparr>state := WRITING_PROMPT\<rparr>)"

text \<open>
  One iteration of the loop that generates the images, and the loop over the ids
  \<^verbatim>\<open>playerIds\<close> that were read from \<^verbatim>\<open>room.players.keys()\<close> when the phase began. The call of
  \<^verbatim>\<open>generateImageFromPrompt\<close> never raises, so the \<^verbatim>\<open>catch\<close> around it, which would store
  \<^verbatim>\<open>null\<close>, is never entered and is not a branch of the model.
\<close>

definition generate_image_for :: "openai_client option \<Rightarrow> round_data \<Rightarrow> socket_id \<Rightarrow> round_data" where
  "generate_image_for openai rd playerId =
     (case map_of (prompts rd) playerId of
        None \<Rightarrow> rd\<lparr>images := AList.update playerId Null (images rd)\<rparr>
      | Some p \<Rightarrow>
          if p = [] then rd\<lparr>images := AList.update playerId Null (images rd)\<rparr>
          else rd\<lparr>images := AList.update playerId (generateImageFromPrompt openai p) (images rd)\<rparr>)"

definition generate_images :: "openai_client option \<Rightarrow> socket_id list \<Rightarrow> round_data \<Rightarrow> round_data" where
  "generate_images openai playerIds rd = foldl (generate_image_for openai) rd playerIds"

text \<open>One iteration of the loop that computes the similarity scores, and the loop.\<close>

definition score_player ::
  "(js_string \<Rightarrow> js_string) \<Rightarrow> js_string \<Rightarrow> round_data \<Rightarrow> socket_id \<Rightarrow> round_data" where
  "score_player toLowerCase original rd playerId =
     (let similarity = (case map_of (prompts rd) playerId of
                          None \<Rightarrow> 0
                        | Some p \<Rightarrow> if p = [] then 0 else calculateSimilarity toLowerCase original p)
      in rd\<lparr>scores := AList.update playerId similarity (scores rd)\<rparr>)"

definition score_round ::
  "(js_string \<Rightarrow> js_string) \<Rightarrow> js_string \<Rightarrow> socket_id list \<Rightarrow> round_data \<Rightarrow> round_data" where
  "score_round toLowerCase original playerIds rd =
     foldl (score_player toLowerCase original) rd playerIds"

text \<open>
  The loop that adds the round scores to the players. \<^verbatim>\<open>room.players.get(playerId)\<close> is
  \<^verbatim>\<open>undefined\<close> for an id that is no longer in the room, and reading \<^verbatim>\<open>player.score\<close> then
  raises a TypeError; the players updated before stay updated. The result is the error
  raised, if any, and the players as the loop leaves them. The round score of an id of the loop
  is always defined, because the loop before it ran over the same ids; the model stops with an
  error of its own in that case, which is never reached.
\<close>

fun accumulate_scores ::
  "socket_id list \<Rightarrow> (socket_id \<times> int) list \<Rightarrow> (socket_id \<times> player) list
     \<Rightarrow> error option \<times> (socket_id \<times> player) list" where
  "accumulate_scores [] sc ps = (None, ps)"
| "accumulate_scores (playerId # ids) sc ps =
     (case map_of ps playerId of
        None \<Rightarrow> (Some (TypeError ''Cannot read properties of undefined (reading score)''), ps)
      | Some pl \<Rightarrow>
          (case map_of sc playerId of
             None \<Rightarrow> (Some (Error ''round score undefined''), ps)
           | Some roundScore \<Rightarrow>
               accumulate_scores ids sc
                 (AList.update playerId (pl\<lparr>score := score pl + roundScore\<rparr>) ps)))"

text \<open>
  The image phase and the voting phase of a round on a room, each with the error it raises,
  if any, and the room as it leaves it. Both use the same \<^verbatim>\<open>playerIds\<close>. In \<^verbatim>\<open>startGame\<close> the
  round record is always there; without one, the first access to a field of a missing object
  raises a TypeError.
\<close>

definition generating_images_phase ::
  "openai_client option \<Rightarrow> socket_id list \<Rightarrow> room \<Rightarrow> error option \<times> room" where
  "generating_images_phase openai playerIds rm =
     (case roundData rm of
        Round rd \<Rightarrow> (None, rm\<lparr>state := GENERATING_IMAGES,
                               roundData := Round (generate_images openai playerIds rd)\<rparr>)
      | Empty_object \<Rightarrow>
          (if playerIds = [] then (None, rm\<lparr>state := GENERATING_IMAGES\<rparr>)
           else (Some (TypeError ''Cannot read properties of undefined''),
                 rm\<lparr>state := GENERATING_IMAGES\<rparr>))
      | No_value \<Rightarrow> (Some (TypeError ''Cannot read properties of undefined''),
                     rm\<lparr>state := GENERATING_IMAGES\<rparr>))"

definition voting_phase ::
  "(js_string \<Rightarrow> js_string) \<Rightarrow> js_string \<Rightarrow> socket_id list \<Rightarrow> room \<Rightarrow> error option \<times> room" where
  "voting_phase toLowerCase original playerIds rm =
     (case roundData rm of
        Round rd \<Rightarrow>
          let rd1 = score_round toLowerCase original playerIds rd;
              rm1 = rm\<lparr>state := VOTING, roundData := Round rd1\<rparr>;
              (err, ps) = accumulate_scores playerIds (scores rd1) (players rm1)
          in (err, rm1\<lparr>players := ps\<rparr>)
      | Empty_object \<Rightarrow>
          (if playerIds = [] then (None, rm\<lparr>state := VOTING\<rparr>)
           else (Some (TypeError ''Cannot read properties of undefined''),
                 rm\<lparr>state := VOTING\<rparr>))
      | No_value \<Rightarrow> (Some (TypeError ''Cannot read properties of undefined''),
                     rm\<lparr>state := VOTING\<rparr>))"

definition game_over :: "room \<Rightarrow> room" where
  "game_over rm = rm\<lparr>state := GAME_OVER\<rparr>"

subsection \<open>The socket handlers\<close>

text \<open>The reply passed to the callback of a request: \<^verbatim>\<open>{success: true}\<close> or
  \<^verbatim>\<open>{success: false, message}\<close>.\<close>

datatype reply = Accepted | Failure string

text \<open>The handler of \<^verbatim>\<open>submit-prompt\<close>: the reply, the registry, and the promise resolved, if
  any.\<close>

definition on_submit_prompt ::
  "rooms \<Rightarrow> string \<Rightarrow> socket_id \<Rightarrow> js_string \<Rightarrow> reply \<times> rooms \<times> nat option" where
  "on_submit_prompt rms roomCode socketId promptText =
     (case getRoom rms roomCode of
        None \<Rightarrow> (Failure ''Room not found'', rms, None)
      | Some rm \<Rightarrow>
          (case handlePromptSubmission rm socketId promptText of
             Inl e \<Rightarrow> (Failure (error_message e), rms, None)
           | Inr (rm1, resolved) \<Rightarrow> (Accepted, AList.update roomCode rm1 rms, resolved)))"

subsection \<open>Concrete rooms\<close>

text \<open>A configuration with every setting left out, and the room that \<^verbatim>\<open>createRoom\<close> builds
  from it for the socket \<^verbatim>\<open>socketA\<close> when the generated code is \<^verbatim>\<open>ABC123\<close>.\<close>

definition no_settings :: config_in where
  "no_settings = \<lparr>in_rounds = None, in_difficulty = None, in_categories = None,
                  in_mode = None, in_playerName = None\<rparr>"

definition lobby_room :: room where
  "lobby_room =
     \<lparr>code = ''ABC123'', host = ''socketA'',
      config = \<lparr>rounds = 3, difficulty = ''medium'', categories = [''random''],
                mode = ''classic''\<rparr>,
      players = [(''socketA'', new_player ''socketA'' ''Host'')],
      state = WAITING, currentRound = 0, roundData = Empty_object,
      resolvePromptPromise = None\<rparr>"

text \<open>The room after a second socket, \<^verbatim>\<open>socketB\<close>, has joined.\<close>

definition duo_room :: room where
  "duo_room = lobby_room\<lparr>players := [(''socketA'', new_player ''socketA'' ''Host''),
                                      (''socketB'', new_player ''socketB'' ''Bob'')]\<rparr>"

subsection \<open>Runs of the submission gate\<close>

text \<open>
  The events that touch the gate of a room, in the order in which the event loop runs them:
  \<^verbatim>\<open>startGame\<close> begins a round, \<^verbatim>\<open>startGame\<close> enters the writing phase and opens gate \<open>g\<close>
  (arming timer \<open>g\<close>), a player submits a prompt, the timer armed with gate \<open>t\<close> fires. A run
  records which promise was resolved, and by what.
\<close>

datatype trigger = All_submitted socket_id | Timer_of nat

datatype gate_event =
  New_round int | Open_gate nat | Submission socket_id js_string | Timer_fires nat

fun gate_step :: "room \<times> (nat \<times> trigger) list \<Rightarrow> gate_event \<Rightarrow> room \<times> (nat \<times> trigger) list" where
  "gate_step (rm, tr) (New_round n) = (begin_round n rm, tr)"
| "gate_step (rm, tr) (Open_gate g) = (begin_writing g rm, tr)"
| "gate_step (rm, tr) (Submission socketId p) =
     (case handlePromptSubmission rm socketId p of
        Inl e \<Rightarrow> (rm, tr)
      | Inr (rm1, None) \<Rightarrow> (rm1, tr)
      | Inr (rm1, Some g) \<Rightarrow> (rm1, tr @ [(g, All_submitted socketId)]))"
| "gate_step (rm, tr) (Timer_fires t) =
     (case deadline_fires rm of
        (rm1, None) \<Rightarrow> (rm1, tr)
      | (rm1, Some g) \<Rightarrow> (rm1, tr @ [(g, Timer_of t)]))"

definition run_gate :: "gate_event list \<Rightarrow> room \<Rightarrow> room \<times> (nat \<times> trigger) list" where
  "run_gate evs rm = foldl gate_step (rm, []) evs"

definition pending_count :: "nat \<Rightarrow> room \<times> (nat \<times> trigger) list \<Rightarrow> nat" where
  "pending_count g st =
     count_list (map fst (snd st)) g + (if resolvePromptPromise (fst st) = Some g then 1 else 0)"

subsection \<open>Concrete rounds\<close>


definition working_client :: openai_client where
  "working_client p = Responds (Some ''https://images.example/generated.png'')"

text \<open>The room of two players when both have submitted in round 1 and the gate has
  resolved; the same room when the image phase has begun and the image for the first player
  has been generated; and the rest of the round from there.\<close>

definition written_room :: room where
  "written_room =
     fst (run_gate [New_round 1, Open_gate 1, Submission ''socketA'' (code_units ''a cat''),
                    Submission ''socketB'' (code_units ''a dog'')] duo_room)"

definition images_started_room :: room where
  "images_started_room =
     snd (generating_images_phase (Some working_client) [''socketA''] written_room)"

definition finish_round :: "room \<Rightarrow> error option \<times> room" where
  "finish_round rm =
     voting_phase ascii_toLowerCase (code_units ''a cat'') [''socketA'', ''socketB'']
       (snd (generating_images_phase (Some working_client) [''socketB''] rm))"

text \<open>The image stored and the score assigned for a player id, as functions of the prompts
  of the round.\<close>

definition image_for :: "openai_client option \<Rightarrow> round_data \<Rightarrow> socket_id \<Rightarrow> js_image" where
  "image_for openai rd playerId =
     (case map_of (prompts rd) playerId of
        None \<Rightarrow> Null
      | Some p \<Rightarrow> if p = [] then Null else generateImageFromPrompt openai p)"



subsection \<open>Well-formed registries\<close>

text \<open>
  A room is well formed when its player ids are distinct (they are the keys of a \<^verbatim>\<open>Map\<close>) and
  not empty (a socket id never is), and its host is one of its players. A registry is well
  formed when its codes are distinct and its rooms are well formed.
\<close>

definition room_ok :: "room \<Rightarrow> bool" where
  "room_ok rm = (distinct (map fst (players rm)) \<and> has_key (host rm) (players rm)
                 \<and> \<not> has_key [] (players rm))"

definition rooms_ok :: "rooms \<Rightarrow> bool" where
  "rooms_ok rms = (distinct (map fst rms) \<and> list_all (\<lambda>(c, rm). room_ok rm) rms)"

text \<open>What one turn of the loop of \<^verbatim>\<open>removePlayer\<close> does to a room that has the player:
  the room it leaves in the registry, or \<open>None\<close> when it deletes the room.\<close>

definition remove_from :: "socket_id \<Rightarrow> room \<Rightarrow> room option" where
  "remove_from socketId rm =
     (let rm1 = rm\<lparr>players := AList.delete socketId (players rm)\<rparr>
      in if host rm = socketId
         then (case map fst (players rm1) of
                 [] \<Rightarrow> None
               | nextPlayer # _ \<Rightarrow> if nextPlayer = [] then None else Some (rm1\<lparr>host := nextPlayer\<rparr>))
         else Some rm1)"

text \<open>A registry of two rooms that the socket \<^verbatim>\<open>socketA\<close> has created; \<^verbatim>\<open>socketB\<close> has joined
  the second.\<close>

definition hosted_twice :: rooms where
  "hosted_twice =
     [(''ABC123'', lobby_room),
      (''XYZ999'', lobby_room\<lparr>code := ''XYZ999'',
                     players := [(''socketA'', new_player ''socketA'' ''Host''),
                                 (''socketB'', new_player ''socketB'' ''Bob'')]\<rparr>)]"

subsection \<open>Operations on the registry\<close>













subsection \<open>The event loop: the start-game handler and the game loops of a room\<close>

text \<open>
  The handler of \<^verbatim>\<open>start-game\<close> awaits \<^verbatim>\<open>startGame(room, io)\<close> and calls the callback of the
  request after it. What the handler replies, and when, depends on the whole game loop and on
  the events that run while it is suspended, so the loop is modelled with its suspension
  points.

  A world is one room object with everything that runs on it: whether the registry still holds
  the object, the calls of \<^verbatim>\<open>startGame\<close> on it with the point where each is suspended, the
  replies given to \<^verbatim>\<open>start-game\<close> requests, and the timers of \<^verbatim>\<open>waitForPrompts\<close> that are armed.
  Requests and gates are numbered in the order in which they arrive and are opened. An event is
  one task of the event loop: a request of a client, or the completion of what a call of
  \<^verbatim>\<open>startGame\<close> awaits (the API call of the gateway, a \<^verbatim>\<open>delay\<close>), or the callback of a timer.
  Between two events the code runs without interruption; the continuation of a call whose
  promise is resolved runs in the same task. Events on other rooms do not touch this one, so
  they are not events of the world. Any order of the events is admitted; the order that the
  durations of the timers impose is not modelled.
\<close>

text \<open>\<^verbatim>\<open>CATEGORIES\<close> of \<^verbatim>\<open>shared/constants.js\<close>, and the choice of the category of a round. The
  argument \<open>d\<close> stands for the value of \<^verbatim>\<open>Math.random()\<close>: the index chosen in a list of \<open>n\<close>
  entries, \<^verbatim>\<open>Math.floor(Math.random() * n)\<close>, is \<open>d mod n\<close>.\<close>

definition CATEGORIES :: "js_string list" where
  "CATEGORIES =
     [code_units ''naturaleza'', code_units ''abstracto'', code_units ''objetos'',
      code_units ''escenas'', code_units ''fant'' @ [225] @ code_units ''stico'']"

definition choose_category :: "string list \<Rightarrow> nat \<Rightarrow> js_string" where
  "choose_category cats d =
     (if cats = [] \<or> ''random'' \<in> set cats then CATEGORIES ! (d mod length CATEGORIES)
      else code_units (cats ! (d mod length cats)))"

text \<open>What is outside the program: \<^verbatim>\<open>String.prototype.toLowerCase\<close>, the OpenAI client, and the
  environment variable \<^verbatim>\<open>MAX_PLAYERS_PER_ROOM\<close>.\<close>

record platform =
  string_lowercase :: "js_string \<Rightarrow> js_string"
  api_client :: "openai_client option"
  max_players_env :: "int option"

text \<open>
  The point where a call of \<^verbatim>\<open>startGame\<close> is suspended, with the local variables it still
  needs (\<^verbatim>\<open>round\<close>, \<^verbatim>\<open>category\<close>, \<^verbatim>\<open>originalPrompt\<close>, \<^verbatim>\<open>playerIds\<close>, the id and the prompt of the
  player whose image is being generated, the ids that come after it), or how the call has
  ended: it returned, or it raised an error.
\<close>

datatype pc =
    Await_original int js_string
  | Await_view int js_string
  | Await_gate int js_string nat
  | Await_image int js_string "socket_id list" socket_id js_string "socket_id list"
  | Await_pause int
  | Returned
  | Raised error

record world =
  the_room :: room
  registered :: bool
  loops :: "(nat \<times> bool \<times> pc) list"
  replies :: "(nat \<times> reply) list"
  timers :: "nat list"
  gates_opened :: nat
  requests :: nat


definition registry :: "world \<Rightarrow> rooms" where
  "registry w = (if registered w then [(code (the_room w), the_room w)] else [])"

text \<open>\<^verbatim>\<open>if (typeof callback === 'function') callback(r)\<close>.\<close>

definition answer :: "nat \<Rightarrow> bool \<Rightarrow> reply \<Rightarrow> world \<Rightarrow> world" where
  "answer rid callback r w = (if callback then w\<lparr>replies := replies w @ [(rid, r)]\<rparr> else w)"

text \<open>The loop that adds the scores, and the end of the round up to \<^verbatim>\<open>delay(5000)\<close>.\<close>

definition voting :: "platform \<Rightarrow> int \<Rightarrow> js_string \<Rightarrow> socket_id list \<Rightarrow> room \<Rightarrow> room \<times> pc" where
  "voting P n original playerIds rm =
     (case voting_phase (string_lowercase P) original playerIds rm of
        (None, rm1) \<Rightarrow> (rm1, Await_pause n)
      | (Some e, rm1) \<Rightarrow> (rm1, Raised e))"

text \<open>
  The loop over \<^verbatim>\<open>playerIds\<close> that generates the images, from the ids that are left. Without a
  client \<^verbatim>\<open>generateImageFromPrompt\<close> returns at once and the loop goes on in the same task; with
  a client the call is suspended on the API call for the prompt read.
\<close>

fun image_loop ::
  "platform \<Rightarrow> int \<Rightarrow> js_string \<Rightarrow> socket_id list \<Rightarrow> socket_id list \<Rightarrow> room \<Rightarrow> room \<times> pc" where
  "image_loop P n original playerIds [] rm = voting P n original playerIds rm"
| "image_loop P n original playerIds (playerId # rest) rm =
     (case roundData rm of
        Round rd \<Rightarrow>
          (case map_of (prompts rd) playerId of
             Some p \<Rightarrow>
               if p \<noteq> [] \<and> api_client P \<noteq> None
               then (rm, Await_image n original playerIds playerId p rest)
               else image_loop P n original playerIds rest
                      (rm\<lparr>roundData := Round (generate_image_for (api_client P) rd playerId)\<rparr>)
           | None \<Rightarrow>
               image_loop P n original playerIds rest
                 (rm\<lparr>roundData := Round (generate_image_for (api_client P) rd playerId)\<rparr>))
      | _ \<Rightarrow> (rm, Raised (TypeError ''Cannot read properties of undefined'')))"

text \<open>The API call for the image of a player has completed: the image is stored in the
  \<^verbatim>\<open>roundData\<close> that the room has now, and the loop goes on.\<close>

definition image_returned ::
  "platform \<Rightarrow> int \<Rightarrow> js_string \<Rightarrow> socket_id list \<Rightarrow> socket_id \<Rightarrow> js_string \<Rightarrow> socket_id list
     \<Rightarrow> room \<Rightarrow> room \<times> pc" where
  "image_returned P n original playerIds playerId p rest rm =
     (case roundData rm of
        Round rd \<Rightarrow>
          image_loop P n original playerIds rest
            (rm\<lparr>roundData := Round (rd\<lparr>images := AList.update playerId
                     (generateImageFromPrompt (api_client P) p) (images rd)\<rparr>)\<rparr>)
      | _ \<Rightarrow> (rm, Raised (TypeError ''Cannot set properties of undefined'')))"

text \<open>The gate has resolved: the image phase begins with the players the room has now.\<close>

definition after_gate :: "platform \<Rightarrow> int \<Rightarrow> js_string \<Rightarrow> room \<Rightarrow> room \<times> pc" where
  "after_gate P n original rm =
     (let rm1 = rm\<lparr>state := GENERATING_IMAGES\<rparr>;
          playerIds = map fst (players rm1)
      in image_loop P n original playerIds playerIds rm1)"

text \<open>\<^verbatim>\<open>generateOriginalImage\<close> has returned: the original is stored and the call waits
  \<^verbatim>\<open>delay(10000)\<close>.\<close>

definition original_returned :: "platform \<Rightarrow> int \<Rightarrow> js_string \<Rightarrow> room \<Rightarrow> room \<times> pc" where
  "original_returned P n category rm =
     (case generateOriginalImage (api_client P) category of
        (p, img) \<Rightarrow> (store_original p img rm, Await_view n p))"

text \<open>
  The head of the \<^verbatim>\<open>for\<close> loop at round \<open>n\<close>: when \<open>n\<close> is at most \<^verbatim>\<open>room.config.rounds\<close> the round
  begins, up to the API call of \<^verbatim>\<open>generateOriginalImage\<close> (without a client the function returns
  at once); otherwise the game is over and \<^verbatim>\<open>startGame\<close> returns.
\<close>

definition round_top :: "platform \<Rightarrow> nat \<Rightarrow> int \<Rightarrow> room \<Rightarrow> room \<times> pc" where
  "round_top P d n rm =
     (if n \<le> rounds (config rm)
      then let rm1 = begin_round n rm;
               category = choose_category (categories (config rm1)) d
           in (case api_client P of
                 None \<Rightarrow> original_returned P n category rm1
               | Some api \<Rightarrow> (rm1, Await_original n category))
      else (game_over rm, Returned))"

text \<open>
  A call of \<^verbatim>\<open>startGame\<close> has run up to its next suspension point or to its end, leaving the
  room and the point given. When the call has ended, the handler that awaits it goes on in
  the same task: it replies \<^verbatim>\<open>{success: true}\<close> when the call returned and
  \<^verbatim>\<open>{success: false, message}\<close> with the message of the error when it raised.
\<close>

definition proceed :: "nat \<Rightarrow> bool \<Rightarrow> room \<times> pc \<Rightarrow> world \<Rightarrow> world" where
  "proceed rid callback res w =
     (let w1 = w\<lparr>the_room := fst res, loops := AList.update rid (callback, snd res) (loops w)\<rparr>
      in case snd res of
           Returned \<Rightarrow> answer rid callback Accepted w1
         | Raised e \<Rightarrow> answer rid callback (Failure (error_message e)) w1
         | _ \<Rightarrow> w1)"

text \<open>
  The handler of \<^verbatim>\<open>start-game\<close>, up to the first suspension of the call of \<^verbatim>\<open>startGame\<close>. It
  tests that the room exists and nothing else; a missing room is the error
  \<^verbatim>\<open>Room not found\<close>, answered at once.
\<close>

definition on_start_game :: "platform \<Rightarrow> string \<Rightarrow> bool \<Rightarrow> nat \<Rightarrow> world \<Rightarrow> world" where
  "on_start_game P roomCode callback d w =
     (let rid = requests w; w1 = w\<lparr>requests := rid + 1\<rparr>
      in case getRoom (registry w) roomCode of
           None \<Rightarrow> answer rid callback (Failure ''Room not found'') w1
         | Some rm \<Rightarrow>
             (case startGame_enter (Some rm) of
                Inl e \<Rightarrow> answer rid callback (Failure (error_message e)) w1
              | Inr rm1 \<Rightarrow> proceed rid callback (round_top P d 1 rm1) w1))"

text \<open>The resolver of gate \<open>g\<close> has been called: the call of \<^verbatim>\<open>startGame\<close> that awaits the
  promise of \<open>g\<close> goes on.\<close>

definition awaits_gate :: "nat \<Rightarrow> nat \<times> bool \<times> pc \<Rightarrow> bool" where
  "awaits_gate g l = (case snd (snd l) of Await_gate n p g' \<Rightarrow> g' = g | _ \<Rightarrow> False)"

definition gate_resolved :: "platform \<Rightarrow> nat option \<Rightarrow> world \<Rightarrow> world" where
  "gate_resolved P resolved w =
     (case resolved of
        None \<Rightarrow> w
      | Some g \<Rightarrow>
          (case find (awaits_gate g) (loops w) of
             Some (rid, callback, Await_gate n p g') \<Rightarrow>
               proceed rid callback (after_gate P n p (the_room w)) w
           | _ \<Rightarrow> w))"

text \<open>
  The events: a \<^verbatim>\<open>start-game\<close> request (room code, whether it carries a callback function, the
  random number for the category of round 1), a \<^verbatim>\<open>join-room\<close> request, the disconnection of a
  socket, a \<^verbatim>\<open>submit-prompt\<close> request, the callback of the timer armed with a gate, and for the
  loop of a request: the API call for the original image has completed, \<^verbatim>\<open>delay(10000)\<close> has
  elapsed, the API call for the image of a player has completed, \<^verbatim>\<open>delay(5000)\<close> has elapsed
  (with the random number for the category of the next round). An event for a loop that is
  not suspended at that point, and a timer that is not armed, do not occur: they change
  nothing.
\<close>

datatype event =
    Start_game_request string bool nat
  | Join_request string socket_id "string option"
  | Disconnected socket_id
  | Prompt_submitted string socket_id js_string
  | Gate_timer_expires nat
  | Original_image_returned nat
  | View_time_elapsed nat
  | Player_image_returned nat
  | Pause_elapsed nat nat

text \<open>\<^verbatim>\<open>removePlayer\<close> deletes the player from the room object before it deletes the room from
  the registry; the calls of \<^verbatim>\<open>startGame\<close> and the timers keep the object.\<close>

fun step :: "platform \<Rightarrow> world \<Rightarrow> event \<Rightarrow> world" where
  "step P w (Start_game_request roomCode callback d) = on_start_game P roomCode callback d w"
| "step P w (Join_request roomCode socketId playerName) =
     (case snd (joinRoom (max_players_env P) (registry w) roomCode socketId playerName) of
        [] \<Rightarrow> w
      | (c, rm) # _ \<Rightarrow> w\<lparr>the_room := rm\<rparr>)"
| "step P w (Disconnected socketId) =
     (if registered w
      then (case removePlayer socketId (registry w) of
              [] \<Rightarrow> w\<lparr>the_room := (the_room w)\<lparr>players :=
                          AList.delete socketId (players (the_room w))\<rparr>,
                       registered := False\<rparr>
            | (c, rm) # _ \<Rightarrow> w\<lparr>the_room := rm\<rparr>)
      else w)"
| "step P w (Prompt_submitted roomCode socketId p) =
     (case getRoom (registry w) roomCode of
        None \<Rightarrow> w
      | Some rm \<Rightarrow>
          (case handlePromptSubmission rm socketId p of
             Inl e \<Rightarrow> w
           | Inr (rm1, resolved) \<Rightarrow> gate_resolved P resolved (w\<lparr>the_room := rm1\<rparr>)))"
| "step P w (Gate_timer_expires g) =
     (if g \<in> set (timers w)
      then (case deadline_fires (the_room w) of
              (rm1, resolved) \<Rightarrow>
                gate_resolved P resolved (w\<lparr>the_room := rm1, timers := remove1 g (timers w)\<rparr>))
      else w)"
| "step P w (Original_image_returned rid) =
     (case map_of (loops w) rid of
        Some (callback, Await_original n category) \<Rightarrow>
          proceed rid callback (original_returned P n category (the_room w)) w
      | _ \<Rightarrow> w)"
| "step P w (View_time_elapsed rid) =
     (case map_of (loops w) rid of
        Some (callback, Await_view n p) \<Rightarrow>
          (let g = gates_opened w
           in proceed rid callback (begin_writing g (the_room w), Await_gate n p g)
                (w\<lparr>timers := timers w @ [g], gates_opened := g + 1\<rparr>))
      | _ \<Rightarrow> w)"
| "step P w (Player_image_returned rid) =
     (case map_of (loops w) rid of
        Some (callback, Await_image n original playerIds playerId p rest) \<Rightarrow>
          proceed rid callback
            (image_returned P n original playerIds playerId p rest (the_room w)) w
      | _ \<Rightarrow> w)"
| "step P w (Pause_elapsed rid d) =
     (case map_of (loops w) rid of
        Some (callback, Await_pause n) \<Rightarrow>
          proceed rid callback (round_top P d (n + 1) (the_room w)) w
      | _ \<Rightarrow> w)"

definition run_world :: "platform \<Rightarrow> event list \<Rightarrow> world \<Rightarrow> world" where
  "run_world P evs w = foldl (step P) w evs"

text \<open>How a call has ended, as the reply that its handler gives.\<close>

definition reply_of :: "pc \<Rightarrow> reply option" where
  "reply_of pc =
     (case pc of
        Returned \<Rightarrow> Some Accepted
      | Raised e \<Rightarrow> Some (Failure (error_message e))
      | _ \<Rightarrow> None)"

definition ended :: "pc \<Rightarrow> bool" where
  "ended pc = (reply_of pc \<noteq> None)"

text \<open>
  What holds of the replies in every world that is reached: a request has at most one reply;
  a reply to a request that started no loop is the failure \<^verbatim>\<open>Room not found\<close>; a reply to a
  request that started a loop is there only when the request carries a callback and the loop
  has ended, and it is the reply for that end; and an ended loop of a request with a callback
  has its reply. Requests are numbered below \<open>requests\<close>.
\<close>

definition replies_ok :: "world \<Rightarrow> bool" where
  "replies_ok w =
     (distinct (map fst (loops w)) \<and> distinct (map fst (replies w))
      \<and> list_all (\<lambda>l. fst l < requests w) (loops w)
      \<and> list_all (\<lambda>a. fst a < requests w
            \<and> (case map_of (loops w) (fst a) of
                 None \<Rightarrow> snd a = Failure ''Room not found''
               | Some l \<Rightarrow> fst l \<and> reply_of (snd l) = Some (snd a))) (replies w)
      \<and> list_all (\<lambda>l. fst (snd l) \<and> ended (snd (snd l)) \<longrightarrow> has_key (fst l) (replies w))
           (loops w))"

text \<open>
  The loop of request \<open>rid\<close> is orphaned at gate \<open>g\<close> when it awaits the promise of \<open>g\<close>, the
  gate has been opened, the resolver that the room holds is not the one of \<open>g\<close>, and the
  request has no reply.
\<close>

definition orphaned :: "nat \<Rightarrow> nat \<Rightarrow> world \<Rightarrow> bool" where
  "orphaned rid g w =
     ((case map_of (loops w) rid of
         Some (callback, Await_gate n p g') \<Rightarrow> g' = g
       | _ \<Rightarrow> False)
      \<and> g < gates_opened w \<and> resolvePromptPromise (the_room w) \<noteq> Some g
      \<and> \<not> has_key rid (replies w))"

subsection \<open>Concrete runs of the event loop\<close>










section \<open>Properties\<close>

subsection \<open>Tokens\<close>

lemma word_tokens_Nil: "word_tokens [] = []"
  by (subst word_tokens.simps) simp

lemma word_tokens_skip: "word_tokens (dropWhile (\<lambda>c. \<not> is_word_char c) s) = word_tokens s"
  by (subst (1 2) word_tokens.simps) (simp add: dropWhile_idem)

lemma word_tokens_word_start:
  "s \<noteq> [] \<Longrightarrow> is_word_char (hd s) \<Longrightarrow>
   word_tokens s = takeWhile is_word_char s # word_tokens (dropWhile is_word_char s)"
  by (subst word_tokens.simps) (cases s; simp)

lemma split_nonword_all_word:
  "dropWhile is_word_char s = [] \<Longrightarrow> split_nonword s = [s]"
  by (subst split_nonword.simps) (simp add: takeWhile_eq_all_conv dropWhile_eq_Nil_conv)

lemma split_nonword_step:
  "dropWhile is_word_char s \<noteq> [] \<Longrightarrow>
   split_nonword s = takeWhile is_word_char s #
      split_nonword (dropWhile (\<lambda>c. \<not> is_word_char c) (dropWhile is_word_char s))"
  apply (subst split_nonword.simps)
  apply (simp only: Let_def if_False)
  done

lemma hd_dropWhile_nonword:
  "dropWhile (\<lambda>c. \<not> is_word_char c) s \<noteq> [] \<Longrightarrow>
   is_word_char (hd (dropWhile (\<lambda>c. \<not> is_word_char c) s))"
  using hd_dropWhile [of "\<lambda>c. \<not> is_word_char c" s] by simp

lemma last_dropWhile: "dropWhile P s \<noteq> [] \<Longrightarrow> last (dropWhile P s) = last s"
  by (induction s) (auto split: if_splits)

lemma dropWhile_Nil_last: "s \<noteq> [] \<Longrightarrow> dropWhile P s = [] \<Longrightarrow> P (last s)"
  by (simp add: dropWhile_eq_Nil_conv)

lemma dropWhile_all: "\<forall>x\<in>set xs. P x \<Longrightarrow> dropWhile P xs = []"
  by simp

lemma takeWhile_all: "\<forall>x\<in>set xs. P x \<Longrightarrow> takeWhile P xs = xs"
  by simp

text \<open>The pieces that \<^verbatim>\<open>split\<close> returns are the words of the string, with an empty piece at
  an end where the string has a non-word character.\<close>

lemma split_nonword_edges:
  "split_nonword s =
     (if s = [] then [[]] else leading_empty s @ word_tokens s @ trailing_empty s)"
proof (induction s rule: split_nonword.induct)
  case (1 s)
  define tok where "tok = takeWhile is_word_char s"
  define rest where "rest = dropWhile is_word_char s"
  define rest' where "rest' = dropWhile (\<lambda>c. \<not> is_word_char c) rest"
  show ?case
  proof (cases "rest = []")
    case True
    then have all: "\<forall>c \<in> set s. is_word_char c"
      by (simp add: rest_def dropWhile_eq_Nil_conv)
    have sp: "split_nonword s = [s]"
      using True by (simp add: split_nonword_all_word rest_def)
    show ?thesis
    proof (cases "s = []")
      case True then show ?thesis using sp by simp
    next
      case False
      then have "is_word_char (hd s)" "is_word_char (last s)" using all by simp_all
      moreover have "word_tokens s = [s]"
        using word_tokens_word_start [OF False \<open>is_word_char (hd s)\<close>]
        by (simp only: dropWhile_all [OF all] takeWhile_all [OF all] word_tokens_Nil)
      ultimately show ?thesis using sp False
        by (simp add: leading_empty_def trailing_empty_def)
    qed
  next
    case False
    then have sne: "s \<noteq> []" by (auto simp: rest_def)
    have sp: "split_nonword s = tok # split_nonword rest'"
      using False split_nonword_step [of s] unfolding tok_def rest_def rest'_def by blast
    have ih: "split_nonword rest' =
       (if rest' = [] then [[]] else leading_empty rest' @ word_tokens rest' @ trailing_empty rest')"
      using "1.IH" [OF refl refl] False by (simp add: rest_def rest'_def)
    have hd_rest: "\<not> is_word_char (hd rest)"
      using False hd_dropWhile [of is_word_char s] by (simp add: rest_def)
    have last_s: "last s = last rest"
      using False last_dropWhile [of is_word_char s] by (simp add: rest_def)
    have wt_rest: "word_tokens rest = word_tokens rest'"
      by (simp add: rest'_def word_tokens_skip)
    have tail: "split_nonword rest' = word_tokens rest' @ trailing_empty s"
    proof (cases "rest' = []")
      case True
      then have "\<not> is_word_char (last rest)"
        using False dropWhile_Nil_last [of rest "\<lambda>c. \<not> is_word_char c"] by (simp add: rest'_def)
      then show ?thesis using ih True sne last_s
        by (simp add: trailing_empty_def word_tokens_Nil)
    next
      case ne: False
      then have "is_word_char (hd rest')"
        using hd_dropWhile_nonword [of rest] by (simp add: rest'_def)
      moreover have "last rest' = last rest"
        using ne last_dropWhile [of "\<lambda>c. \<not> is_word_char c" rest] by (simp add: rest'_def)
      ultimately show ?thesis using ih ne sne last_s
        by (simp add: trailing_empty_def leading_empty_def)
    qed
    show ?thesis
    proof (cases "tok = []")
      case True
      then have "s = rest"
        using takeWhile_dropWhile_id [of is_word_char s] by (simp add: tok_def rest_def)
      then have "leading_empty s = [[]]" "word_tokens s = word_tokens rest'"
        using hd_rest sne wt_rest by (simp_all add: leading_empty_def)
      then show ?thesis using sp tail True sne by simp
    next
      case ne: False
      then have hd_s: "is_word_char (hd s)"
        by (cases s) (auto simp: tok_def split: if_splits)
      then have "word_tokens s = tok # word_tokens rest"
        using word_tokens_word_start [OF sne] by (simp add: tok_def rest_def)
      then show ?thesis using sp tail sne hd_s wt_rest by (simp add: leading_empty_def)
    qed
  qed
qed

lemma split_nonword_eq_edge_tokens: "split_nonword s = edge_tokens s"
  by (simp add: split_nonword_edges edge_tokens_def)

lemma split_nonword_nonempty: "split_nonword s \<noteq> []"
  by (subst split_nonword.simps) (simp add: Let_def)

subsection \<open>Rounding to a double\<close>

text \<open>The rounded significand is at most \<open>1/2\<close> away from the exact one, and the rounding is
  monotone at an integer.\<close>

lemma round_half_even_error: "\<bar>of_int (round_half_even s) - s\<bar> \<le> 1 / 2"
proof -
  have "of_int \<lfloor>s\<rfloor> \<le> s" "s < of_int \<lfloor>s\<rfloor> + 1" by linarith+
  then show ?thesis by (auto simp: round_half_even_def Let_def)
qed



lemma pow2_pos: "0 < (2::rat) powi e"
  by (simp add: zero_less_power_int)

lemma pow2_less_imp: "(2::rat) powi a < 2 powi b \<Longrightarrow> a < b"
  using power_int_increasing [of b a "2::rat"] by (cases "a < b") simp_all


lemma pow2_mono: "a \<le> b \<Longrightarrow> (2::rat) powi a \<le> 2 powi b"
  by (rule power_int_increasing) simp_all

lemma of_int_bitlen_bounds:
  assumes "0 < p"
  shows "(2::rat) powi (bitlen p - 1) \<le> of_int p \<and> of_int p < (2::rat) powi (bitlen p)"
proof -
  from bitlen_bounds [OF assms]
  have b: "2 ^ nat (bitlen p - 1) \<le> p" "p < 2 ^ nat (bitlen p)" by simp_all
  have ge1: "1 \<le> bitlen p" using assms by (simp add: bitlen_alt_def) 
  have "(2::rat) powi (bitlen p - 1) = 2 ^ nat (bitlen p - 1)"
    using ge1 by (simp add: power_int_def)
  moreover have "(2::rat) powi (bitlen p) = 2 ^ nat (bitlen p)"
    using ge1 by (simp add: power_int_def)
  moreover have "(2::rat) ^ nat (bitlen p - 1) \<le> of_int p"
    using b(1) by (metis of_int_le_iff of_int_numeral of_int_power)
  moreover have "of_int p < (2::rat) ^ nat (bitlen p)"
    using b(2) by (metis of_int_less_iff of_int_numeral of_int_power)
  ultimately show ?thesis by simp
qed

lemma double_exponent_spec:
  assumes "0 < x"
  shows "\<exists>e. double_exponent x = max e (- 1074) \<and> 2 powi (e + 52) \<le> x \<and> x < 2 powi (e + 53)"
proof -
  obtain p q where pq: "quotient_of x = (p, q)" by (cases "quotient_of x")
  then have q: "0 < q" and x: "x = of_int p / of_int q"
    by (simp_all add: quotient_of_denom_pos quotient_of_div)
  have p: "0 < p" using assms q x by (simp add: zero_less_divide_iff)
  define e0 where "e0 = bitlen p - bitlen q - 53"
  note bp = of_int_bitlen_bounds [OF p] and bq = of_int_bitlen_bounds [OF q]
  have qpos: "0 < (of_int q :: rat)" using q by simp
  have up: "x < 2 powi (e0 + 54)"
  proof -
    have "x < 2 powi (bitlen p) / of_int q"
      unfolding x using bp qpos by (simp add: divide_strict_right_mono)
    also have "\<dots> \<le> 2 powi (bitlen p) / 2 powi (bitlen q - 1)"
      using bq pow2_pos by (simp add: frac_le)
    also have "\<dots> = 2 powi (e0 + 54)"
      by (simp add: e0_def power_int_diff [symmetric] algebra_simps)
    finally show ?thesis .
  qed
  have lo: "2 powi (e0 + 52) < x"
  proof -
    have "2 powi (e0 + 52) = 2 powi (bitlen p - 1) / (2::rat) powi (bitlen q)"
      by (simp add: e0_def power_int_diff [symmetric] algebra_simps)
    also have "\<dots> < 2 powi (bitlen p - 1) / of_int q"
      using bq qpos pow2_pos [of "bitlen p - 1"] by (simp add: divide_strict_left_mono)
    also have "\<dots> \<le> x"
      unfolding x using bp qpos by (simp add: divide_right_mono)
    finally show ?thesis .
  qed
  show ?thesis
  proof (cases "x < 2 powi (e0 + 53)")
    case True
    then have "double_exponent x = max e0 (- 1074)"
      by (simp add: double_exponent_def pq e0_def)
    then show ?thesis using True lo by (intro exI [of _ e0]) simp
  next
    case False
    then have "double_exponent x = max (e0 + 1) (- 1074)"
      by (simp add: double_exponent_def pq e0_def)
    then show ?thesis using False up by (intro exI [of _ "e0 + 1"]) (simp add: algebra_simps)
  qed
qed




lemma to_double_rel_error:
  assumes "2 powi (- 1022) \<le> x"
  shows "\<bar>to_double x - x\<bar> \<le> x / 2 ^ 53"
proof -
  have xpos: "0 < x" using assms pow2_pos [of "- 1022"] by linarith
  from double_exponent_spec [OF xpos] obtain e where
    e: "double_exponent x = max e (- 1074)" "2 powi (e + 52) \<le> x" "x < 2 powi (e + 53)" by blast
  have "(2::rat) powi (- 1022) < 2 powi (e + 53)" using assms e(3) by linarith
  then have "- 1022 < e + 53" by (rule pow2_less_imp)
  then have de: "double_exponent x = e" using e(1) by simp
  define s where "s = x / 2 powi e"
  have x: "x = s * 2 powi e" using pow2_pos [of e] by (simp add: s_def)
  have td: "to_double x = of_int (round_half_even s) * 2 powi e"
    using xpos by (simp add: to_double_def Let_def de s_def)
  have "to_double x - x = (of_int (round_half_even s) - s) * 2 powi e"
    by (subst (2) x) (simp add: td algebra_simps)
  then have "\<bar>to_double x - x\<bar> = \<bar>of_int (round_half_even s) - s\<bar> * 2 powi e"
    using pow2_pos [of e] by (simp add: abs_mult)
  also have "\<dots> \<le> 1 / 2 * 2 powi e"
    using round_half_even_error [of s] pow2_pos [of e] by (simp add: mult_right_mono)
  also have "\<dots> = 2 powi (e + 52) / 2 ^ 53"
    by (simp add: power_int_add)
  also have "\<dots> \<le> x / 2 ^ 53" using e(2) by (simp add: divide_right_mono)
  finally show ?thesis .
qed

lemma half_gap:
  fixes m :: int and N :: rat
  assumes "0 < N" "0 < of_int m / (2 * N)"
  shows "1 / (2 * N) \<le> of_int m / (2 * N)"
proof -
  have "0 < (of_int m :: rat)" using assms by (simp add: zero_less_divide_iff)
  then have "1 \<le> m" by simp
  then have "(1::rat) \<le> of_int m" by (simp only: of_int_1_le_iff)
  then show ?thesis using assms(1) by (simp add: divide_right_mono)
qed

text \<open>A product or quotient that is not subnormal is rounded with a relative error of at
  most \<open>2 ^ - 53\<close>. For \<open>k\<close> matches among \<open>n\<close> tokens, \<open>n < 2 ^ 40\<close>, the two roundings move
  the percentage by less than \<open>2 ^ - 41\<close>, and a percentage \<open>100 * k / n\<close> that is not a tie is
  at least \<open>1 / (2 * n)\<close> away from one: so the integer that \<^verbatim>\<open>Math.round\<close> gives for the double
  is nearest to the exact percentage.\<close>

lemma percent_nearest:
  assumes k: "0 < k" "k \<le> n" and n: "n < 2 ^ 40"
  shows "\<bar>of_nat k / of_nat n * 100
           - of_int (Math_round (double_mult (double_div (of_nat k) (of_nat n)) 100))\<bar>
         \<le> (1 / 2 :: rat)"
proof -
  define K :: rat where "K = of_nat k"
  define N :: rat where "N = of_nat n"
  define x :: rat where "x = K / N"
  define d where "d = to_double x"
  define y where "y = d * 100"
  define z where "z = to_double y"
  define r where "r = Math_round (double_mult (double_div (of_nat k) (of_nat n)) 100)"
  define u :: rat where "u = 1 / 2 ^ 53"
  define a :: rat where "a = 1 / 2 ^ 41"
  define t where "t = x * 100"
  have r: "r = \<lfloor>z + 1 / 2\<rfloor>"
    by (simp add: r_def double_mult_def double_div_def Math_round_def z_def y_def d_def x_def
        K_def N_def)
  have Npos: "0 < N" and Kpos: "0 < K" and KN: "K \<le> N"
    using k by (simp_all add: N_def K_def)
  have Nlt: "N < 2 ^ 40"
  proof -
    have "(of_nat n :: rat) < of_nat (2 ^ 40)" using n by (simp only: of_nat_less_iff)
    then show ?thesis by (simp add: N_def)
  qed
  have x1: "x \<le> 1" using KN Npos by (simp add: x_def)
  have xpos: "0 < x" using Kpos Npos by (simp add: x_def)
  have gapN: "a < 1 / (2 * N)"
  proof -
    have "2 * N < 2 ^ 41" using Nlt by simp
    then show ?thesis unfolding a_def using Npos by (simp add: divide_strict_left_mono)
  qed
  have xlow: "2 * a \<le> x"
  proof -
    have "1 \<le> K" using k by (simp add: K_def)
    then have "1 / N \<le> x" using Npos by (simp add: x_def divide_right_mono)
    moreover have "1 / N = 2 * (1 / (2 * N))" by simp
    ultimately show ?thesis using gapN by linarith
  qed
  have upos: "0 < u" and u_small: "300 * u < a" and u_half: "u \<le> 1 / 2"
    by (simp_all add: u_def a_def)
  have tiny: "(2::rat) powi (- 1022) \<le> a"
  proof -
    have "(2::rat) powi (- 1022) \<le> 2 powi (- 41)" by (rule pow2_mono) simp
    then show ?thesis by (simp add: a_def power_int_def field_simps)
  qed
  have apos: "0 < a" by (simp add: a_def)
  have "2 powi (- 1022) \<le> x" using tiny xlow apos by linarith
  from to_double_rel_error [OF this] have "\<bar>d - x\<bar> \<le> x * u"
    by (simp add: d_def u_def)
  then have dx: "d - x \<le> x * u" "x - d \<le> x * u" by linarith+
  have xu: "x * u \<le> u" using x1 upos by (simp add: mult_left_le_one_le)
  have xu2: "x * u \<le> x * (1 / 2)" using u_half xpos by (intro mult_left_mono) simp_all
  have dlow: "a \<le> d" using dx xu2 xlow by linarith
  have dup: "d \<le> 1 + u" using dx xu x1 by linarith
  have ydef: "y = 100 * d" by (simp add: y_def)
  have "2 powi (- 1022) \<le> y" using tiny dlow apos unfolding ydef by linarith
  from to_double_rel_error [OF this] have "\<bar>z - y\<bar> \<le> y * u"
    by (simp add: z_def u_def)
  then have zy: "z - y \<le> y * u" "y - z \<le> y * u" by linarith+
  have "y * u \<le> 200 * u"
  proof -
    have "y \<le> 200" using dup u_half unfolding ydef by linarith
    then show ?thesis using upos by (intro mult_right_mono) simp_all
  qed
  then have zy': "z - y \<le> 200 * u" "y - z \<le> 200 * u" using zy by linarith+
  have tdef: "t = 100 * x" by (simp add: t_def)
  have zt: "z - t < a" "t - z < a"
    using zy' dx xu u_small unfolding ydef tdef by linarith+
  have fl: "of_int r \<le> z + 1 / 2" "z + 1 / 2 < of_int r + 1" unfolding r by linarith+
  have up: "t \<le> of_int r + 1 / 2"
  proof (rule ccontr)
    assume "\<not> t \<le> of_int r + 1 / 2"
    then have pos: "0 < t - (of_int r + 1 / 2)" by simp
    have eq: "t - (of_int r + 1 / 2) = of_int (200 * int k - (2 * r + 1) * int n) / (2 * N)"
      using Npos by (simp add: t_def x_def K_def N_def field_simps)
    from half_gap [OF Npos pos [unfolded eq]]
    have "1 / (2 * N) \<le> t - (of_int r + 1 / 2)" by (simp only: eq)
    then show False using gapN zt fl by linarith
  qed
  have lo: "of_int r - 1 / 2 \<le> t"
  proof (rule ccontr)
    assume "\<not> of_int r - 1 / 2 \<le> t"
    then have pos: "0 < (of_int r - 1 / 2) - t" by simp
    have eq: "(of_int r - 1 / 2) - t = of_int ((2 * r - 1) * int n - 200 * int k) / (2 * N)"
      using Npos by (simp add: t_def x_def K_def N_def field_simps)
    from half_gap [OF Npos pos [unfolded eq]]
    have "1 / (2 * N) \<le> (of_int r - 1 / 2) - t" by (simp only: eq)
    then show False using gapN zt fl by linarith
  qed
  have "\<bar>t - of_int r\<bar> \<le> 1 / 2" using up lo by linarith
  then show ?thesis by (simp add: t_def x_def K_def N_def r_def)
qed


subsection \<open>The similarity score\<close>

lemma overlap_loop_count:
  "foldl (\<lambda>n word. if word \<in> A then n + 1 else n) (k::nat) ws
     = k + length (filter (\<lambda>w. w \<in> A) ws)"
  by (induction ws arbitrary: k) simp_all


lemma Math_round_pct_nearest:
  assumes "k \<le> n" "0 < n" "n < 2 ^ 40"
  shows "nearest_integer (of_nat k / of_nat n * 100)
           (Math_round (double_mult (double_div (of_nat k) (of_nat n)) 100))"
proof (cases "k = 0")
  case True
  have "\<lfloor>(1 / 2 :: rat)\<rfloor> = 0" by (rule floor_unique) simp_all
  then show ?thesis using True
    by (simp add: nearest_integer_def double_mult_def double_div_def to_double_def Math_round_def)
next
  case False
  then have "0 < k" by simp
  then show ?thesis unfolding nearest_integer_def using assms(1,3) by (rule percent_nearest)
qed


text \<open>
  \<^bold>\<open>C1\<close> (as amended). For all strings of fewer than \<open>2 ^ 40\<close> tokens, the result of
  \<^verbatim>\<open>calculateSimilarity\<close> satisfies the reference definition taken over the tokens that
  \<^verbatim>\<open>split\<close> returns: the lowercase words of the string, preceded by an empty token when the
  string starts with a non-word character and followed by an empty token when it ends with one.
  The empty tokens count like words, in the overlap and in the lengths. The result is an
  integer nearest to the percentage of the candidate's tokens that are in the token set of the
  original, out of the larger number of tokens, and it is 0 when either string is empty. This
  holds for every lower-casing function.
\<close>

theorem calculateSimilarity_reference:
  assumes "length (edge_tokens (toLowerCase a)) < 2 ^ 40"
    and "length (edge_tokens (toLowerCase b)) < 2 ^ 40"
  shows "is_similarity edge_tokens toLowerCase a b (calculateSimilarity toLowerCase a b)"
proof (cases "a = [] \<or> b = []")
  case True
  then show ?thesis by (auto simp: calculateSimilarity_def is_similarity_def)
next
  case False
  define wordsA where "wordsA = split_nonword (toLowerCase a)"
  define wordsB where "wordsB = split_nonword (toLowerCase b)"
  define overlap where "overlap = length (filter (\<lambda>w. w \<in> set wordsA) wordsB)"
  define maxWords where "maxWords = max (length wordsA) (length wordsB)"
  have le: "overlap \<le> maxWords"
    unfolding overlap_def maxWords_def
    by (meson length_filter_le max.cobounded2 order_trans)
  have pos: "0 < maxWords"
    using split_nonword_nonempty [of "toLowerCase a"]
    by (auto simp: maxWords_def wordsA_def less_max_iff_disj)
  have small: "maxWords < 2 ^ 40"
    using assms by (simp add: maxWords_def wordsA_def wordsB_def split_nonword_eq_edge_tokens)
  have code: "calculateSimilarity toLowerCase a b
      = Math_round (double_mult (double_div (of_nat overlap) (of_nat maxWords)) 100)"
    using False
    by (simp add: calculateSimilarity_def Let_def overlap_loop_count
        wordsA_def wordsB_def overlap_def maxWords_def)
  have "nearest_integer (of_nat overlap / of_nat maxWords * 100)
          (calculateSimilarity toLowerCase a b)"
    unfolding code using le pos small by (rule Math_round_pct_nearest)
  then show ?thesis using False pos
    by (simp add: is_similarity_def Let_def split_nonword_eq_edge_tokens [symmetric]
        split_nonword_nonempty wordsA_def wordsB_def overlap_def maxWords_def)
qed

theorem calculateSimilarity_reference_witness:
  "length (edge_tokens (ascii_toLowerCase forty_words)) < 2 ^ 40
   \<and> length (edge_tokens (ascii_toLowerCase twenty_three_words)) < 2 ^ 40
   \<and> calculateSimilarity ascii_toLowerCase forty_words twenty_three_words = 57
   \<and> is_similarity edge_tokens ascii_toLowerCase forty_words twenty_three_words 57
   \<and> calculateSimilarity ascii_toLowerCase (code_units ''A cat sat!'') (code_units ''a cat'') = 50"
proof -
  have la: "length (edge_tokens (ascii_toLowerCase forty_words)) = 40" by code_simp
  have lb: "length (edge_tokens (ascii_toLowerCase twenty_three_words)) = 23" by code_simp
  have a: "length (edge_tokens (ascii_toLowerCase forty_words)) < 2 ^ 40"
    unfolding la by simp
  have b: "length (edge_tokens (ascii_toLowerCase twenty_three_words)) < 2 ^ 40"
    unfolding lb by simp
  have c: "calculateSimilarity ascii_toLowerCase forty_words twenty_three_words = 57"
    by code_simp
  have d: "calculateSimilarity ascii_toLowerCase (code_units ''A cat sat!'') (code_units ''a cat'')
      = 50"
    by code_simp
  show ?thesis
    using calculateSimilarity_reference [where toLowerCase = ascii_toLowerCase
        and a = forty_words and b = twenty_three_words] a b c d
    by simp
qed

text \<open>
  \<^bold>\<open>C1\<close> (as stated) fails. The words of \<^verbatim>\<open>"a cat."\<close> are \<^verbatim>\<open>a\<close> and \<^verbatim>\<open>cat\<close>, the same as the
  words of \<^verbatim>\<open>"a cat"\<close>, so the reference definition over words gives 100 and nothing else;
  \<^verbatim>\<open>"a cat.".split(/\W+/)\<close> has a third, empty piece, and the code gives
  \<^verbatim>\<open>Math.round(2 / 3 * 100) = 67\<close>.
\<close>

theorem calculateSimilarity_words_counterexample:
  "calculateSimilarity ascii_toLowerCase (code_units ''a cat.'') (code_units ''a cat'') = 67
   \<and> is_similarity word_tokens ascii_toLowerCase (code_units ''a cat.'') (code_units ''a cat'') 100
   \<and> \<not> is_similarity word_tokens ascii_toLowerCase (code_units ''a cat.'') (code_units ''a cat'') 67"
  by code_simp

subsection \<open>The registry: createRoom and joinRoom\<close>

lemma find_unused_Some:
  "c0 \<in> set generated \<Longrightarrow> \<not> has_key c0 rms \<Longrightarrow>
   \<exists>c. find (\<lambda>c. \<not> has_key c rms) generated = Some c \<and> \<not> has_key c rms"
  by (induction generated) auto

text \<open>
  \<^bold>\<open>C10\<close>. Whenever one of the generated codes is not in use, \<^verbatim>\<open>createRoom\<close> with a
  configuration object returns: it stores a room under a code that was not in use, and in that
  room a setting the configuration leaves out has its default (\<^verbatim>\<open>rounds\<close> 3, \<^verbatim>\<open>difficulty\<close>
  medium, \<^verbatim>\<open>categories\<close> the single entry random, \<^verbatim>\<open>mode\<close> classic), the state is WAITING,
  \<^verbatim>\<open>currentRound\<close> is 0, the creator is the host and the only player, with score 0, and is
  named Host when \<^verbatim>\<open>playerName\<close> is left out.
\<close>

theorem createRoom_defaults:
  assumes "c0 \<in> set generated" and "\<not> has_key c0 rms"
  shows "\<exists>c rms' rm p.
      createRoom (Some cf) socketId generated rms = Some (Inr (c, rms'))
    \<and> \<not> has_key c rms
    \<and> getRoom rms' c = Some rm
    \<and> (in_rounds cf = None \<longrightarrow> rounds (config rm) = 3)
    \<and> (in_difficulty cf = None \<longrightarrow> difficulty (config rm) = ''medium'')
    \<and> (in_categories cf = None \<longrightarrow> categories (config rm) = [''random''])
    \<and> (in_mode cf = None \<longrightarrow> mode (config rm) = ''classic'')
    \<and> state rm = WAITING \<and> currentRound rm = 0
    \<and> host rm = socketId \<and> players rm = [(socketId, p)]
    \<and> player_id p = socketId \<and> score p = 0
    \<and> (in_playerName cf = None \<longrightarrow> name p = ''Host'')"
proof -
  from find_unused_Some [OF assms] obtain c
    where c: "find (\<lambda>c. \<not> has_key c rms) generated = Some c" "\<not> has_key c rms"
    by blast
  show ?thesis
    using c
    by (simp add: createRoom_def Let_def getRoom_def update_conv' new_player_def or_default_def)
qed

theorem createRoom_defaults_witness:
  "''ABC123'' \<in> set [''ABC123''] \<and> \<not> has_key ''ABC123'' ([] :: rooms)
   \<and> createRoom (Some no_settings) ''socketA'' [''ABC123''] []
       = Some (Inr (''ABC123'', [(''ABC123'', lobby_room)]))
   \<and> rounds (config lobby_room) = 3 \<and> difficulty (config lobby_room) = ''medium''
   \<and> categories (config lobby_room) = [''random''] \<and> mode (config lobby_room) = ''classic''
   \<and> state lobby_room = WAITING \<and> currentRound lobby_room = 0
   \<and> host lobby_room = ''socketA''
   \<and> map fst (players lobby_room) = [''socketA'']
   \<and> map (name \<circ> snd) (players lobby_room) = [''Host'']"
  using createRoom_defaults [of "''ABC123''" "[''ABC123'']" "[]" no_settings "''socketA''"]
  by (simp add: createRoom_def no_settings_def lobby_room_def has_key_def new_player_def
      or_default_def)

text \<open>
  \<^bold>\<open>C6\<close> (as amended). \<^verbatim>\<open>joinRoom\<close> on a code with no room fails with the message that the room
  does not exist and changes nothing; on a room whose player count is at or above the capacity
  (6 when the environment sets none) it fails with the message that the room is full and
  changes nothing; on a room under capacity it succeeds and stores under the socket id a
  player with score 0, and when the socket id is not yet a player of the room, the player is
  added behind the others and the player count grows by exactly one.
\<close>

theorem joinRoom_outcomes:
  "(getRoom rms roomCode = None \<longrightarrow>
      joinRoom env rms roomCode socketId pn
        = (\<lparr>success = False, message = ''Room does not exist.''\<rparr>, rms))
   \<and> (\<forall>rm. getRoom rms roomCode = Some rm \<and> MAX_PLAYERS env \<le> int (length (players rm)) \<longrightarrow>
      joinRoom env rms roomCode socketId pn
        = (\<lparr>success = False, message = ''Room is full.''\<rparr>, rms))
   \<and> (\<forall>rm. getRoom rms roomCode = Some rm \<and> int (length (players rm)) < MAX_PLAYERS env \<longrightarrow>
      (\<exists>rm' p. joinRoom env rms roomCode socketId pn
                 = (\<lparr>success = True, message = ''Joined room successfully.''\<rparr>,
                    AList.update roomCode rm' rms)
         \<and> getRoom (snd (joinRoom env rms roomCode socketId pn)) roomCode = Some rm'
         \<and> map_of (players rm') socketId = Some p \<and> score p = 0
         \<and> (\<not> has_key socketId (players rm) \<longrightarrow>
              players rm' = players rm @ [(socketId, p)]
              \<and> length (players rm') = length (players rm) + 1)))
   \<and> MAX_PLAYERS None = 6"
proof -
  have app: "\<And>k v al. \<not> has_key k al \<Longrightarrow> AList.update k v al = al @ [(k, v)]"
    subgoal for k v al by (induction al) (auto simp: has_key_def)
    done
  show ?thesis
    by (auto simp: joinRoom_def getRoom_def MAX_PLAYERS_def update_conv' new_player_def app)
qed

theorem joinRoom_outcomes_witness:
  "getRoom [(''ABC123'', lobby_room)] ''XYZ999'' = None
   \<and> joinRoom None [(''ABC123'', lobby_room)] ''XYZ999'' ''socketB'' (Some ''Bob'')
       = (\<lparr>success = False, message = ''Room does not exist.''\<rparr>, [(''ABC123'', lobby_room)])
   \<and> getRoom [(''ABC123'', lobby_room)] ''ABC123'' = Some lobby_room
   \<and> MAX_PLAYERS (Some 1) \<le> int (length (players lobby_room))
   \<and> joinRoom (Some 1) [(''ABC123'', lobby_room)] ''ABC123'' ''socketB'' (Some ''Bob'')
       = (\<lparr>success = False, message = ''Room is full.''\<rparr>, [(''ABC123'', lobby_room)])
   \<and> int (length (players lobby_room)) < MAX_PLAYERS None
   \<and> \<not> has_key ''socketB'' (players lobby_room)
   \<and> success (fst (joinRoom None [(''ABC123'', lobby_room)] ''ABC123'' ''socketB'' (Some ''Bob'')))
   \<and> map_option (map fst \<circ> players)
        (getRoom (snd (joinRoom None [(''ABC123'', lobby_room)] ''ABC123'' ''socketB'' (Some ''Bob'')))
           ''ABC123'')
       = Some [''socketA'', ''socketB'']"
  using joinRoom_outcomes [of "[(''ABC123'', lobby_room)]" "''XYZ999''" None "''socketB''" "Some ''Bob''"]
    joinRoom_outcomes [of "[(''ABC123'', lobby_room)]" "''ABC123''" "Some 1" "''socketB''" "Some ''Bob''"]
    joinRoom_outcomes [of "[(''ABC123'', lobby_room)]" "''ABC123''" None "''socketB''" "Some ''Bob''"]
  by (simp add: joinRoom_def getRoom_def MAX_PLAYERS_def lobby_room_def has_key_def
      new_player_def or_default_def)

text \<open>
  \<^bold>\<open>C6\<close> (as stated) fails: the host of a room under capacity sends \<^verbatim>\<open>join-room\<close> for its own
  room. The call succeeds, \<^verbatim>\<open>players.set\<close> replaces the entry of the host, and the room still
  has one player.
\<close>

theorem joinRoom_member_counterexample:
  "getRoom [(''ABC123'', lobby_room)] ''ABC123'' = Some lobby_room
   \<and> int (length (players lobby_room)) < MAX_PLAYERS None
   \<and> length (players lobby_room) = 1
   \<and> success (fst (joinRoom None [(''ABC123'', lobby_room)] ''ABC123'' ''socketA'' (Some ''Ann'')))
   \<and> map_option (length \<circ> players)
        (getRoom (snd (joinRoom None [(''ABC123'', lobby_room)] ''ABC123'' ''socketA'' (Some ''Ann'')))
           ''ABC123'')
       = Some 1"
  by (simp add: joinRoom_def getRoom_def MAX_PLAYERS_def lobby_room_def new_player_def
      or_default_def)

subsection \<open>The handler of submit-prompt\<close>

text \<open>When the room has the record of a round, a submission is accepted; when no gate is
  pending, it is recorded and resolves nothing.\<close>

lemma submit_with_round_accepted:
  assumes "getRoom rms roomCode = Some rm" and "roundData rm = Round rd"
  shows "fst (on_submit_prompt rms roomCode socketId p) = Accepted"
  using assms
  by (simp add: on_submit_prompt_def handlePromptSubmission_def Let_def split: option.splits)

lemma submit_late_recorded:
  assumes "getRoom rms roomCode = Some rm" and "roundData rm = Round rd"
    and "resolvePromptPromise rm = None"
  shows "on_submit_prompt rms roomCode socketId p
     = (Accepted,
        AList.update roomCode
          (rm\<lparr>roundData := Round (rd\<lparr>prompts := AList.update socketId p (prompts rd)\<rparr>)\<rparr>) rms,
        None)"
  using assms by (simp add: on_submit_prompt_def handlePromptSubmission_def Let_def)

text \<open>
  \<^bold>\<open>C9\<close> fails on the code. A room that \<^verbatim>\<open>createRoom\<close> has just built has the empty object as
  \<^verbatim>\<open>roundData\<close>; the guard \<^verbatim>\<open>!room.roundData\<close> of \<^verbatim>\<open>handlePromptSubmission\<close> lets it pass, the
  assignment to \<^verbatim>\<open>room.roundData.prompts[socketId]\<close> raises a TypeError, and the handler
  answers the \<^verbatim>\<open>submit-prompt\<close> request with a failure reply.
\<close>

theorem submit_before_start_fails:
  "createRoom (Some no_settings) ''socketA'' [''ABC123''] []
     = Some (Inr (''ABC123'', [(''ABC123'', lobby_room)]))
   \<and> on_submit_prompt [(''ABC123'', lobby_room)] ''ABC123'' ''socketA'' (code_units ''a cat'')
     = (Failure ''Cannot set properties of undefined'', [(''ABC123'', lobby_room)], None)"
  by (simp add: createRoom_def no_settings_def lobby_room_def has_key_def new_player_def
      or_default_def on_submit_prompt_def handlePromptSubmission_def getRoom_def)

subsection \<open>The submission gate\<close>

text \<open>With no gate pending, the timer callback and a submission resolve nothing; a
  resolution clears the pending gate.\<close>

lemma deadline_fires_no_gate:
  "resolvePromptPromise rm = None \<Longrightarrow> deadline_fires rm = (rm, None)"
  by (simp add: deadline_fires_def)

lemma deadline_fires_clears:
  "resolvePromptPromise (fst (deadline_fires rm)) = None"
  by (simp add: deadline_fires_def split: option.splits)

lemma submission_no_gate:
  assumes "resolvePromptPromise rm = None" and "handlePromptSubmission rm socketId p = Inr (rm1, r)"
  shows "r = None \<and> resolvePromptPromise rm1 = None"
  using assms
  by (auto simp: handlePromptSubmission_def Let_def split: round_slot.splits)

lemma submission_resolves_clears:
  assumes "handlePromptSubmission rm socketId p = Inr (rm1, Some g)"
  shows "resolvePromptPromise rm = Some g \<and> resolvePromptPromise rm1 = None"
  using assms
  by (auto simp: handlePromptSubmission_def Let_def split: round_slot.splits option.splits if_splits)

lemma gate_step_pending:
  "pending_count g (gate_step st ev) \<le> pending_count g st + (if ev = Open_gate g then 1 else 0)"
proof (cases st)
  case (Pair rm tr)
  show ?thesis
  proof (cases ev)
    case (New_round n)
    then show ?thesis using Pair by (simp add: pending_count_def begin_round_def)
  next
    case (Open_gate g')
    then show ?thesis using Pair
      by (simp add: pending_count_def begin_writing_def waitForPrompts_def)
  next
    case (Submission socketId p)
    then show ?thesis using Pair
      by (auto simp: pending_count_def handlePromptSubmission_def Let_def
          split: round_slot.splits option.splits)
  next
    case (Timer_fires t)
    then show ?thesis using Pair
      by (auto simp: pending_count_def deadline_fires_def split: option.splits)
  qed
qed

lemma foldl_gate_step_pending:
  "pending_count g (foldl gate_step st evs)
     \<le> pending_count g st + length (filter (\<lambda>e. e = Open_gate g) evs)"
proof (induction evs arbitrary: st)
  case Nil
  then show ?case by simp
next
  case (Cons ev evs)
  have "pending_count g (foldl gate_step (gate_step st ev) evs)
      \<le> pending_count g (gate_step st ev) + length (filter (\<lambda>e. e = Open_gate g) evs)"
    by (rule Cons.IH)
  then show ?case using gate_step_pending [of g st ev] by auto
qed

text \<open>A promise is resolved at most as often as a gate was opened for it.\<close>

lemma gate_resolved_at_most_once:
  assumes "resolvePromptPromise rm = None"
  shows "count_list (map fst (snd (run_gate evs rm))) g
           \<le> length (filter (\<lambda>e. e = Open_gate g) evs)"
proof -
  have "pending_count g (foldl gate_step (rm, []) evs)
      \<le> pending_count g (rm, []) + length (filter (\<lambda>e. e = Open_gate g) evs)"
    by (rule foldl_gate_step_pending)
  then show ?thesis using assms by (simp add: pending_count_def run_gate_def)
qed

text \<open>
  \<^bold>\<open>C2\<close> fails on the code. Two players, two rounds. In round 1 both players submit, and the
  second submission resolves gate 1; the timer armed with gate 1 stays armed. Round 2 begins
  and opens gate 2. Then the timer of gate 1 fires: the callback finds the resolver of gate 2
  in the room and calls it. Gate 2 is resolved by the deadline of round 1, with no prompt
  submitted in round 2 and before its own deadline.
\<close>

theorem stale_timer_resolves_next_gate:
  "joinRoom None [(''ABC123'', lobby_room)] ''ABC123'' ''socketB'' (Some ''Bob'')
     = (\<lparr>success = True, message = ''Joined room successfully.''\<rparr>, [(''ABC123'', duo_room)])
   \<and> snd (run_gate [New_round 1, Open_gate 1, Submission ''socketA'' (code_units ''a cat''),
                     Submission ''socketB'' (code_units ''a dog''), New_round 2, Open_gate 2,
                     Timer_fires 1]
             duo_room)
       = [(1, All_submitted ''socketB''), (2, Timer_of 1)]
   \<and> roundData (fst (run_gate [New_round 1, Open_gate 1,
                     Submission ''socketA'' (code_units ''a cat''),
                     Submission ''socketB'' (code_units ''a dog''), New_round 2, Open_gate 2,
                     Timer_fires 1]
             duo_room))
       = Round \<lparr>originalPrompt = None, originalImage = Null, prompts = [], images = [],
                scores = []\<rparr>"
  by code_simp

subsection \<open>The image phase and the scores of a round\<close>

lemma generate_image_for_fields:
  "prompts (generate_image_for openai rd i) = prompts rd"
  "scores (generate_image_for openai rd i) = scores rd"
  "images (generate_image_for openai rd i) = AList.update i (image_for openai rd i) (images rd)"
  by (auto simp: generate_image_for_def image_for_def split: option.splits)



lemma generate_images_scores: "scores (generate_images openai ids rd) = scores rd"
  unfolding generate_images_def
  by (induction ids arbitrary: rd) (simp_all add: generate_image_for_fields)











text \<open>
  \<^bold>\<open>C3\<close> fails on the code. The image phase of round 1 reads the player ids \<^verbatim>\<open>socketA\<close> and
  \<^verbatim>\<open>socketB\<close>; while \<^verbatim>\<open>startGame\<close> is suspended on the gateway call for the first image,
  \<^verbatim>\<open>socketB\<close> disconnects and \<^verbatim>\<open>removePlayer\<close> takes it out of the room. The image loop goes
  on, and the loop that adds the round scores raises a TypeError at \<^verbatim>\<open>socketB\<close>.
\<close>

theorem leaver_breaks_accumulation:
  "map fst (players written_room) = [''socketA'', ''socketB'']
   \<and> state images_started_room = GENERATING_IMAGES
   \<and> map_option (map fst \<circ> players)
        (getRoom (removePlayer ''socketB'' [(''ABC123'', images_started_room)]) ''ABC123'')
       = Some [''socketA'']
   \<and> map_option (fst \<circ> finish_round)
        (getRoom (removePlayer ''socketB'' [(''ABC123'', images_started_room)]) ''ABC123'')
       = Some (Some (TypeError ''Cannot read properties of undefined (reading score)''))"
  by code_simp

subsection \<open>The registry: removePlayer and the host of a room\<close>

lemma removePlayer_keys: "set (map fst (removePlayer socketId rms)) \<subseteq> set (map fst rms)"
proof (induction rms)
  case Nil
  then show ?case by simp
next
  case (Cons a rms)
  obtain c rm where a: "a = (c, rm)" by (cases a)
  show ?case using Cons.IH a
    by (cases "map fst (AList.delete socketId (players rm))") (auto simp: Let_def)
qed

lemma removePlayer_distinct: "distinct (map fst rms) \<Longrightarrow> distinct (map fst (removePlayer socketId rms))"
proof (induction rms)
  case Nil
  then show ?case by simp
next
  case (Cons a rms)
  obtain c rm where a: "a = (c, rm)" by (cases a)
  have "c \<notin> set (map fst (removePlayer socketId rms))"
    using Cons.prems removePlayer_keys [of socketId rms] a by auto
  then show ?case using Cons a by (auto simp: Let_def split: list.splits)
qed



lemma removePlayer_absent:
  "map_of rms c = None \<Longrightarrow> map_of (removePlayer socketId rms) c = None"
  using removePlayer_keys [of socketId rms] by (auto simp: map_of_eq_None_iff)

lemma has_key_delete: "has_key k (AList.delete j al) \<longleftrightarrow> k \<noteq> j \<and> has_key k al"
  by (auto simp: has_key_def delete_keys)

lemma room_ok_remove_from:
  assumes "room_ok rm" and "remove_from socketId rm = Some rm1"
  shows "room_ok rm1"
proof -
  have p: "players rm1 = AList.delete socketId (players rm)"
    using assms(2) by (auto simp: remove_from_def Let_def split: if_splits list.splits)
  have d: "distinct (map fst (players rm1))"
    using assms(1) p by (simp add: room_ok_def distinct_delete)
  have e: "\<not> has_key [] (players rm1)"
    using assms(1) p by (simp add: room_ok_def has_key_delete)
  have h: "has_key (host rm1) (players rm1)"
  proof (cases "host rm = socketId")
    case True
    then obtain n ns where "map fst (AList.delete socketId (players rm)) = n # ns" "host rm1 = n"
      using assms(2) by (auto simp: remove_from_def Let_def split: if_splits list.splits)
    then show ?thesis using p by (simp add: has_key_def)
  next
    case False
    then have "host rm1 = host rm"
      using assms(2) by (auto simp: remove_from_def Let_def)
    then show ?thesis using False assms(1) p by (simp add: room_ok_def has_key_delete)
  qed
  show ?thesis using d e h by (simp add: room_ok_def)
qed

lemma removePlayer_rooms_ok: "rooms_ok rms \<Longrightarrow> rooms_ok (removePlayer socketId rms)"
  unfolding rooms_ok_def
proof (intro conjI)
  assume ok: "distinct (map fst rms) \<and> list_all (\<lambda>(c, rm). room_ok rm) rms"
  then show "distinct (map fst (removePlayer socketId rms))"
    by (simp add: removePlayer_distinct)
  from ok have "list_all (\<lambda>(c, rm). room_ok rm) rms" by simp
  then show "list_all (\<lambda>(c, rm). room_ok rm) (removePlayer socketId rms)"
  proof (induction rms)
    case Nil
    then show ?case by simp
  next
    case (Cons a rms)
    obtain c rm where a: "a = (c, rm)" by (cases a)
    have okrm: "room_ok rm" and rest: "list_all (\<lambda>(c, rm). room_ok rm) rms"
      using Cons.prems a by simp_all
    have r: "\<And>rm1. remove_from socketId rm = Some rm1 \<Longrightarrow> room_ok rm1"
      using okrm room_ok_remove_from by blast
    show ?case using a okrm rest Cons.IH [OF rest] r
      by (auto simp: Let_def remove_from_def split: list.splits if_splits)
  qed
qed

text \<open>
  The call reaches a room of the player when it deletes no room before: when the player is
  not the host and the only player of another room. It then takes the player out of the room.
\<close>

lemma removePlayer_visited:
  assumes "distinct (map fst rms)" and "map_of rms c = Some rm"
    and "has_key socketId (players rm)"
    and "\<forall>c' rm'. map_of rms c' = Some rm' \<and> c' \<noteq> c \<and> has_key socketId (players rm')
           \<longrightarrow> remove_from socketId rm' \<noteq> None"
  shows "map_of (removePlayer socketId rms) c = remove_from socketId rm"
  using assms
proof (induction rms)
  case Nil
  then show ?case by simp
next
  case (Cons a rms)
  obtain c' rm' where a: "a = (c', rm')" by (cases a)
  have d: "distinct (map fst rms)" and fresh: "c' \<notin> set (map fst rms)"
    using Cons.prems(1) a by simp_all
  show ?case
  proof (cases "c' = c")
    case True
    then have rm': "rm' = rm" using Cons.prems(2) a by simp
    have notin: "map_of rms c = None"
      using fresh True by (simp add: map_of_eq_None_iff)
    show ?thesis using a True rm' notin Cons.prems(3)
      by (auto simp: remove_from_def Let_def removePlayer_absent split: list.splits)
  next
    case False
    then have look: "map_of rms c = Some rm" using Cons.prems(2) a by simp
    have others: "\<forall>c'' rm''. map_of rms c'' = Some rm'' \<and> c'' \<noteq> c
           \<and> has_key socketId (players rm'') \<longrightarrow> remove_from socketId rm'' \<noteq> None"
    proof (intro allI impI)
      fix c'' rm''
      assume h: "map_of rms c'' = Some rm'' \<and> c'' \<noteq> c \<and> has_key socketId (players rm'')"
      then have "(c'', rm'') \<in> set rms" by (simp add: map_of_SomeD)
      then have "c'' \<in> set (map fst rms)" by force
      then have "c'' \<noteq> c'" using fresh by auto
      then have "map_of (a # rms) c'' = Some rm''" using h a by simp
      then show "remove_from socketId rm'' \<noteq> None" using Cons.prems(4) h by blast
    qed
    note ih = Cons.IH [OF d look Cons.prems(3) others]
    have "map_of (a # rms) c' = Some rm'" using a by simp
    then have head: "has_key socketId (players rm') \<longrightarrow> remove_from socketId rm' \<noteq> None"
      using Cons.prems(4) False by blast
    show ?thesis using a False ih head
      by (auto simp: remove_from_def Let_def split: list.splits if_splits)
  qed
qed

text \<open>
  In a well-formed registry every room has a host who is one of its players, and
  \<^verbatim>\<open>removePlayer\<close> leaves the registry well formed. When the player is in the room \<open>c\<close> and the
  call deletes no other room, the player is taken out of \<open>c\<close>; if the player was the host and
  other players remain, the room stays with exactly the remaining players, and its new host is
  the first of them; if no player remains, the room is deleted; if the player was not the host,
  the host stays.
\<close>

lemma removePlayer_succession:
  assumes "rooms_ok rms" and "getRoom rms c = Some rm" and "has_key socketId (players rm)"
    and "\<forall>c' rm'. getRoom rms c' = Some rm' \<and> c' \<noteq> c \<and> has_key socketId (players rm')
           \<longrightarrow> remove_from socketId rm' \<noteq> None"
  shows "rooms_ok (removePlayer socketId rms)
       \<and> (host rm = socketId \<and> AList.delete socketId (players rm) \<noteq> [] \<longrightarrow>
           (\<exists>rm1. getRoom (removePlayer socketId rms) c = Some rm1
                \<and> players rm1 = AList.delete socketId (players rm)
                \<and> \<not> has_key socketId (players rm1)
                \<and> host rm1 = fst (hd (players rm1))
                \<and> has_key (host rm1) (players rm1)))
       \<and> (host rm = socketId \<and> AList.delete socketId (players rm) = [] \<longrightarrow>
           getRoom (removePlayer socketId rms) c = None)
       \<and> (host rm \<noteq> socketId \<longrightarrow>
           (\<exists>rm1. getRoom (removePlayer socketId rms) c = Some rm1
                \<and> players rm1 = AList.delete socketId (players rm)
                \<and> \<not> has_key socketId (players rm1)
                \<and> host rm1 = host rm))"
proof -
  have d: "distinct (map fst rms)" using assms(1) by (simp add: rooms_ok_def)
  have look: "map_of rms c = Some rm" using assms(2) by (simp add: getRoom_def)
  then have "(c, rm) \<in> set rms" by (rule map_of_SomeD)
  then have okrm: "room_ok rm" using assms(1) by (auto simp: rooms_ok_def list_all_iff)
  have eq: "getRoom (removePlayer socketId rms) c = remove_from socketId rm"
    using removePlayer_visited [OF d look assms(3)] assms(4) by (simp add: getRoom_def)
  have ok': "rooms_ok (removePlayer socketId rms)"
    using assms(1) by (rule removePlayer_rooms_ok)
  have gone: "\<not> has_key socketId (AList.delete socketId (players rm))"
    by (simp add: has_key_delete)
  show ?thesis
  proof (cases "AList.delete socketId (players rm)")
    case Nil
    then show ?thesis using ok' eq gone by (auto simp: remove_from_def Let_def)
  next
    case (Cons p ps)
    then have "fst p \<in> set (map fst (AList.delete socketId (players rm)))" by simp
    then have k: "has_key (fst p) (players rm) \<and> fst p \<noteq> socketId"
      using has_key_delete [of "fst p" socketId "players rm"] by (simp add: has_key_def)
    then have ne: "fst p \<noteq> []" using okrm by (auto simp: room_ok_def)
    show ?thesis using ok' eq Cons k ne gone
      by (auto simp: remove_from_def Let_def has_key_def)
  qed
qed

text \<open>
  \<^bold>\<open>C7\<close> fails on the code. The socket \<^verbatim>\<open>socketA\<close> creates two rooms, and \<^verbatim>\<open>socketB\<close> joins the
  second one. When \<^verbatim>\<open>socketA\<close> disconnects, \<^verbatim>\<open>removePlayer\<close> deletes the first room, where
  \<^verbatim>\<open>socketA\<close> was alone, and leaves its loop with \<^verbatim>\<open>break\<close>: the second room is not visited. The
  player that was to be removed is still its host and one of its players, and \<^verbatim>\<open>socketB\<close>, who
  remains, has not become the host.
\<close>

theorem removePlayer_stops_after_deleted_room:
  "createRoom (Some no_settings) ''socketA'' [''ABC123''] []
     = Some (Inr (''ABC123'', [(''ABC123'', lobby_room)]))
   \<and> map_option (map_sum id fst)
        (createRoom (Some no_settings) ''socketA'' [''XYZ999''] [(''ABC123'', lobby_room)])
     = Some (Inr ''XYZ999'')
   \<and> map_option (map_sum id snd)
        (createRoom (Some no_settings) ''socketA'' [''XYZ999''] [(''ABC123'', lobby_room)])
     = Some (Inr [(''ABC123'', lobby_room), (''XYZ999'', lobby_room\<lparr>code := ''XYZ999''\<rparr>)])
   \<and> joinRoom None [(''ABC123'', lobby_room), (''XYZ999'', lobby_room\<lparr>code := ''XYZ999''\<rparr>)]
        ''XYZ999'' ''socketB'' (Some ''Bob'')
     = (\<lparr>success = True, message = ''Joined room successfully.''\<rparr>, hosted_twice)
   \<and> rooms_ok hosted_twice
   \<and> map_option host (getRoom hosted_twice ''XYZ999'') = Some ''socketA''
   \<and> map_option (map fst \<circ> players) (getRoom hosted_twice ''XYZ999'')
       = Some [''socketA'', ''socketB'']
   \<and> map fst (removePlayer ''socketA'' hosted_twice) = [''XYZ999'']
   \<and> map_option host (getRoom (removePlayer ''socketA'' hosted_twice) ''XYZ999'')
       = Some ''socketA''
   \<and> map_option (map fst \<circ> players) (getRoom (removePlayer ''socketA'' hosted_twice) ''XYZ999'')
       = Some [''socketA'', ''socketB'']"
  by code_simp

text \<open>\<^verbatim>\<open>createRoom\<close> and \<^verbatim>\<open>joinRoom\<close> keep the registry well formed.\<close>

lemma list_all_update:
  "list_all P al \<Longrightarrow> P (k, v) \<Longrightarrow> list_all P (AList.update k v al)"
  by (induction al) auto

lemma createRoom_rooms_ok:
  assumes "rooms_ok rms" and "socketId \<noteq> []"
    and "createRoom cfg socketId generated rms = Some (Inr (c, rms1))"
  shows "rooms_ok rms1"
  using assms
  by (auto simp: createRoom_def rooms_ok_def room_ok_def has_key_def Let_def distinct_update
      intro!: list_all_update split: option.splits)

lemma joinRoom_rooms_ok:
  assumes "rooms_ok rms" and "socketId \<noteq> []"
  shows "rooms_ok (snd (joinRoom env rms roomCode socketId pn))"
proof (cases "map_of rms roomCode")
  case None
  then show ?thesis using assms by (simp add: joinRoom_def)
next
  case (Some rm)
  then have "(roomCode, rm) \<in> set rms" by (rule map_of_SomeD)
  then have ok: "room_ok rm" using assms(1) by (auto simp: rooms_ok_def list_all_iff)
  have "room_ok (rm\<lparr>players := AList.update socketId v (players rm)\<rparr>)" for v
    using ok assms(2) by (auto simp: room_ok_def has_key_def distinct_update dom_update)
  then show ?thesis using Some assms(1)
    by (auto simp: joinRoom_def rooms_ok_def distinct_update intro!: list_all_update)
qed

subsection \<open>The cumulative scores\<close>























subsection \<open>The event loop: the replies to start-game requests\<close>

lemma replies_ok_frame:
  "replies_ok (w\<lparr>the_room := rm\<rparr>) = replies_ok w"
  "replies_ok (w\<lparr>timers := t\<rparr>) = replies_ok w"
  "replies_ok (w\<lparr>gates_opened := g\<rparr>) = replies_ok w"
  "replies_ok (w\<lparr>registered := b\<rparr>) = replies_ok w"
  by (simp_all add: replies_ok_def)

lemma replies_ok_next_request:
  "replies_ok w \<Longrightarrow> replies_ok (w\<lparr>requests := requests w + 1\<rparr>)"
  by (auto simp: replies_ok_def list_all_iff)

lemma has_key_replies_bound:
  "replies_ok w \<Longrightarrow> has_key rid (replies w) \<Longrightarrow> rid < requests w"
  by (auto simp: replies_ok_def list_all_iff has_key_def)

lemma loop_bound:
  "replies_ok w \<Longrightarrow> map_of (loops w) rid = Some l \<Longrightarrow> rid < requests w"
  by (auto simp: replies_ok_def list_all_iff dest!: map_of_SomeD)

lemma running_not_answered:
  assumes "replies_ok w" and "map_of (loops w) rid = Some (callback, pc)" and "\<not> ended pc"
  shows "\<not> has_key rid (replies w)"
proof
  assume "has_key rid (replies w)"
  then obtain r where "(rid, r) \<in> set (replies w)" by (auto simp: has_key_def)
  then have "reply_of pc = Some r"
    using assms(1,2) by (auto simp: replies_ok_def list_all_iff)
  then show False using assms(3) by (simp add: ended_def)
qed

lemma answer_absent_ok:
  assumes "replies_ok w"
  shows "replies_ok (answer (requests w) callback (Failure ''Room not found'')
                       (w\<lparr>requests := requests w + 1\<rparr>))"
proof (cases callback)
  case False
  then show ?thesis using replies_ok_next_request [OF assms] by (simp add: answer_def)
next
  case True
  have fresh: "requests w \<notin> set (map fst (replies w))"
    using has_key_replies_bound [OF assms, of "requests w"] by (auto simp: has_key_def)
  have noloop: "map_of (loops w) (requests w) = None"
    using loop_bound [OF assms, of "requests w"] by (cases "map_of (loops w) (requests w)") auto
  show ?thesis using True assms fresh noloop
    by (auto simp: answer_def replies_ok_def list_all_iff has_key_def)
qed

lemma proceed_replies:
  "proceed rid callback (rm, pc) w
     = w\<lparr>the_room := rm, loops := AList.update rid (callback, pc) (loops w),
          replies := replies w @ (if callback then (case reply_of pc of
                                                      Some r \<Rightarrow> [(rid, r)] | None \<Rightarrow> [])
                                  else [])\<rparr>"
  by (cases pc) (simp_all add: proceed_def answer_def reply_of_def Let_def)

lemma proceed_ok:
  assumes ok: "replies_ok w" and bound: "rid < requests w"
    and fresh: "\<not> has_key rid (replies w)"
  shows "replies_ok (proceed rid callback res w)"
proof -
  obtain rm pc where res: "res = (rm, pc)" by (cases res)
  define rs where "rs = (if callback then (case reply_of pc of
                                             Some r \<Rightarrow> [(rid, r)] | None \<Rightarrow> [])
                         else [])"
  define w1 where "w1 = w\<lparr>the_room := rm, loops := AList.update rid (callback, pc) (loops w),
                          replies := replies w @ rs\<rparr>"
  have w1: "proceed rid callback res w = w1"
    by (simp add: res proceed_replies w1_def rs_def)
  have rs: "rs = [] \<or> (\<exists>r. rs = [(rid, r)] \<and> callback \<and> reply_of pc = Some r)"
    by (auto simp: rs_def split: option.splits)
  have l1: "map_of (loops w1) rid' = (if rid' = rid then Some (callback, pc) else map_of (loops w) rid')"
    for rid'
    by (simp add: w1_def update_conv')
  have keys1: "set (map fst (loops w1)) = insert rid (set (map fst (loops w)))"
    by (simp add: w1_def dom_update)
  have d1: "distinct (map fst (loops w1))"
    using ok by (simp add: w1_def replies_ok_def distinct_update)
  have r0: "\<And>a. a \<in> set (replies w) \<Longrightarrow> fst a \<noteq> rid"
    using fresh by (force simp: has_key_def)
  have "rid \<notin> set (map fst (replies w))" using fresh by (simp add: has_key_def)
  then have d2: "distinct (map fst (replies w1))"
    using ok rs by (force simp: w1_def replies_ok_def)
  have mem1: "\<And>rid' cb' pc'. (rid', cb', pc') \<in> set (loops w1) \<Longrightarrow>
                 map_of (loops w1) rid' = Some (cb', pc')"
    by (simp add: map_of_eq_Some_iff [OF d1])
  have c3: "list_all (\<lambda>l. fst l < requests w1) (loops w1)"
    unfolding list_all_iff
  proof
    fix l assume "l \<in> set (loops w1)"
    then have "fst l \<in> insert rid (set (map fst (loops w)))" using keys1 by force
    then show "fst l < requests w1"
      using ok bound by (auto simp: replies_ok_def list_all_iff w1_def)
  qed
  have c4: "list_all (\<lambda>a. fst a < requests w1
            \<and> (case map_of (loops w1) (fst a) of
                 None \<Rightarrow> snd a = Failure ''Room not found''
               | Some l \<Rightarrow> fst l \<and> reply_of (snd l) = Some (snd a))) (replies w1)"
    unfolding list_all_iff
  proof
    fix a assume a: "a \<in> set (replies w1)"
    then consider "a \<in> set (replies w)" | "a \<in> set rs" by (auto simp: w1_def)
    then show "fst a < requests w1
            \<and> (case map_of (loops w1) (fst a) of
                 None \<Rightarrow> snd a = Failure ''Room not found''
               | Some l \<Rightarrow> fst l \<and> reply_of (snd l) = Some (snd a))"
    proof cases
      case 1
      then have "fst a \<noteq> rid" by (rule r0)
      then have "map_of (loops w1) (fst a) = map_of (loops w) (fst a)" by (simp add: l1)
      then show ?thesis using ok 1 by (auto simp: replies_ok_def list_all_iff w1_def)
    next
      case 2
      then obtain r where "a = (rid, r)" "callback" "reply_of pc = Some r" using rs by auto
      then show ?thesis using bound by (simp add: l1) (simp add: w1_def)
    qed
  qed
  have c5: "list_all (\<lambda>l. fst (snd l) \<and> ended (snd (snd l)) \<longrightarrow> has_key (fst l) (replies w1))
           (loops w1)"
    unfolding list_all_iff
  proof
    fix l assume l: "l \<in> set (loops w1)"
    obtain rid' cb' pc' where l': "l = (rid', cb', pc')" by (cases l)
    have m: "map_of (loops w1) rid' = Some (cb', pc')" using mem1 l l' by simp
    show "fst (snd l) \<and> ended (snd (snd l)) \<longrightarrow> has_key (fst l) (replies w1)"
    proof (cases "rid' = rid")
      case True
      then have "cb' = callback" "pc' = pc" using m l1 [of rid] by simp_all
      then show ?thesis using l' True
        by (auto simp: w1_def rs_def ended_def has_key_def)
    next
      case False
      then have "map_of (loops w) rid' = Some (cb', pc')" using m l1 [of rid'] by simp
      then have "(rid', cb', pc') \<in> set (loops w)" by (rule map_of_SomeD)
      then have "cb' \<and> ended pc' \<longrightarrow> has_key rid' (replies w)"
        using ok by (auto simp: replies_ok_def list_all_iff)
      then show ?thesis using l' by (auto simp: w1_def has_key_def)
    qed
  qed
  show ?thesis unfolding w1 using d1 d2 c3 c4 c5 by (simp add: replies_ok_def)
qed

lemma resume_ok:
  assumes "replies_ok w" and "map_of (loops w) rid = Some (callback, pc)" and "\<not> ended pc"
  shows "replies_ok (proceed rid callback res w)"
  using assms(1) loop_bound [OF assms(1,2)] running_not_answered [OF assms]
  by (rule proceed_ok)

lemma find_awaits_gate:
  assumes "find (awaits_gate g) ls = Some (rid, callback, pc)" and "distinct (map fst ls)"
  shows "map_of ls rid = Some (callback, pc) \<and> (\<exists>n p. pc = Await_gate n p g)"
proof -
  from assms(1) have "(rid, callback, pc) \<in> set ls" and "awaits_gate g (rid, callback, pc)"
    by (auto simp: find_Some_iff in_set_conv_nth)
  then show ?thesis using assms(2)
    by (auto simp: awaits_gate_def split: pc.splits)
qed

lemma gate_resolved_ok:
  assumes "replies_ok w"
  shows "replies_ok (gate_resolved P resolved w)"
proof (cases resolved)
  case None
  then show ?thesis using assms by (simp add: gate_resolved_def)
next
  case (Some g)
  show ?thesis
  proof (cases "find (awaits_gate g) (loops w)")
    case None
    then show ?thesis using assms Some by (simp add: gate_resolved_def)
  next
    case found: (Some l)
    obtain rid callback pc where l: "l = (rid, callback, pc)" by (cases l)
    have d: "distinct (map fst (loops w))" using assms by (simp add: replies_ok_def)
    from find_awaits_gate [OF found [unfolded l] d] obtain n p where
      m: "map_of (loops w) rid = Some (callback, pc)" and pc: "pc = Await_gate n p g" by blast
    have "\<not> ended pc" by (simp add: pc ended_def reply_of_def)
    then have "replies_ok (proceed rid callback (after_gate P n p (the_room w)) w)"
      using assms m by (intro resume_ok)
    then show ?thesis using Some found l pc by (simp add: gate_resolved_def)
  qed
qed

lemma step_ok:
  assumes "replies_ok w"
  shows "replies_ok (step P w ev)"
proof (cases ev)
  case (Start_game_request roomCode callback d)
  show ?thesis
  proof (cases "getRoom (registry w) roomCode")
    case None
    then show ?thesis using Start_game_request answer_absent_ok [OF assms]
      by (simp add: on_start_game_def Let_def)
  next
    case (Some rm)
    have "replies_ok (proceed (requests w) callback res (w\<lparr>requests := requests w + 1\<rparr>))" for res
    proof (rule proceed_ok)
      show "replies_ok (w\<lparr>requests := requests w + 1\<rparr>)"
        using assms by (rule replies_ok_next_request)
      show "requests w < requests (w\<lparr>requests := requests w + 1\<rparr>)" by simp
      show "\<not> has_key (requests w) (replies (w\<lparr>requests := requests w + 1\<rparr>))"
        using has_key_replies_bound [OF assms, of "requests w"] by auto
    qed
    then show ?thesis using Start_game_request Some
      by (simp add: on_start_game_def Let_def startGame_enter_def)
  qed
next
  case (Join_request roomCode socketId playerName)
  then show ?thesis using assms by (auto simp: replies_ok_frame split: list.splits)
next
  case (Disconnected socketId)
  then show ?thesis using assms by (auto simp: replies_ok_frame split: list.splits)
next
  case (Prompt_submitted roomCode socketId p)
  then show ?thesis using assms
    by (auto simp: replies_ok_frame gate_resolved_ok split: option.splits sum.splits)
next
  case (Gate_timer_expires g)
  then show ?thesis using assms
    by (auto simp: replies_ok_frame gate_resolved_ok split: prod.splits)
next
  case (Original_image_returned rid)
  then show ?thesis using assms
    by (auto simp: ended_def reply_of_def intro!: resume_ok split: option.splits pc.splits)
next
  case (View_time_elapsed rid)
  then show ?thesis using assms
    by (auto simp: ended_def reply_of_def Let_def replies_ok_frame intro!: resume_ok
        split: option.splits pc.splits)
next
  case (Player_image_returned rid)
  then show ?thesis using assms
    by (auto simp: ended_def reply_of_def intro!: resume_ok split: option.splits pc.splits)
next
  case (Pause_elapsed rid d)
  then show ?thesis using assms
    by (auto simp: ended_def reply_of_def intro!: resume_ok split: option.splits pc.splits)
qed




subsection \<open>Orphaned game loops\<close>

text \<open>The blocks of \<^verbatim>\<open>startGame\<close> after the gate do not touch the resolver in the room.\<close>

lemma voting_resolver:
  "resolvePromptPromise (fst (voting P n original ids rm)) = resolvePromptPromise rm"
  by (auto simp: voting_def voting_phase_def Let_def
      split: prod.splits round_slot.splits option.splits)

lemma image_loop_resolver:
  "resolvePromptPromise (fst (image_loop P n original ids rest rm)) = resolvePromptPromise rm"
  by (induction P n original ids rest rm rule: image_loop.induct)
     (auto simp: voting_resolver split: round_slot.splits option.splits)

lemma image_returned_resolver:
  "resolvePromptPromise (fst (image_returned P n original ids i p rest rm))
     = resolvePromptPromise rm"
  by (auto simp: image_returned_def image_loop_resolver split: round_slot.splits)

lemma after_gate_resolver:
  "resolvePromptPromise (fst (after_gate P n original rm)) = resolvePromptPromise rm"
  by (simp add: after_gate_def Let_def image_loop_resolver)

lemma original_returned_resolver:
  "resolvePromptPromise (fst (original_returned P n category rm)) = resolvePromptPromise rm"
  by (auto simp: original_returned_def store_original_def split: prod.splits round_slot.splits)

lemma round_top_resolver:
  "resolvePromptPromise (fst (round_top P d n rm)) = resolvePromptPromise rm"
  by (auto simp: round_top_def Let_def original_returned_resolver begin_round_def game_over_def
      split: option.splits)

lemma joinRoom_resolver:
  "snd (joinRoom env [(c, rm)] roomCode socketId playerName) = (c', rm') # rest
   \<Longrightarrow> resolvePromptPromise rm' = resolvePromptPromise rm"
  by (auto simp: joinRoom_def split: if_splits)

lemma removePlayer_resolver:
  "removePlayer socketId [(c, rm)] = (c', rm') # rest
   \<Longrightarrow> resolvePromptPromise rm' = resolvePromptPromise rm"
  by (auto simp: Let_def split: if_splits list.splits)

lemma deadline_fires_resolved:
  "deadline_fires rm = (rm1, resolved) \<Longrightarrow>
   (resolved = None \<and> rm1 = rm)
   \<or> (resolved = resolvePromptPromise rm \<and> resolvePromptPromise rm1 = None)"
  by (auto simp: deadline_fires_def split: option.splits)

lemma submission_resolved:
  "handlePromptSubmission rm socketId p = Inr (rm1, resolved) \<Longrightarrow>
   (resolved = None \<and> resolvePromptPromise rm1 = resolvePromptPromise rm)
   \<or> (resolved = resolvePromptPromise rm \<and> resolvePromptPromise rm1 = None)"
  by (auto simp: handlePromptSubmission_def Let_def
      split: round_slot.splits option.splits if_splits)

text \<open>An orphaned loop stays orphaned when another loop goes on.\<close>

lemma orphaned_proceed:
  assumes "orphaned rid g w" and "rid' \<noteq> rid" and "resolvePromptPromise (fst res) \<noteq> Some g"
  shows "orphaned rid g (proceed rid' callback res w)"
proof -
  obtain rm pc where res: "res = (rm, pc)" by (cases res)
  define rs where "rs = (if callback then (case reply_of pc of
                                             Some r \<Rightarrow> [(rid', r)] | None \<Rightarrow> [])
                         else [])"
  define w1 where "w1 = w\<lparr>the_room := rm, loops := AList.update rid' (callback, pc) (loops w),
                          replies := replies w @ rs\<rparr>"
  have w1: "proceed rid' callback res w = w1"
    by (simp add: res proceed_replies w1_def rs_def)
  have "rs = [] \<or> (\<exists>r. rs = [(rid', r)])"
    by (cases callback; cases "reply_of pc") (simp_all add: rs_def)
  then have k: "has_key rid (replies w1) = has_key rid (replies w)"
    using assms(2) by (auto simp: w1_def has_key_def)
  have l: "map_of (loops w1) rid = map_of (loops w) rid"
    using assms(2) by (simp add: w1_def update_conv')
  have r: "resolvePromptPromise (the_room w1) \<noteq> Some g"
    using assms(3) by (simp add: w1_def res)
  have g: "gates_opened w1 = gates_opened w" by (simp add: w1_def)
  show ?thesis unfolding w1 using assms(1) k l r g by (simp add: orphaned_def)
qed

lemma orphaned_loop:
  assumes "orphaned rid g w" and "map_of (loops w) rid' = Some (callback, pc)"
    and "\<forall>n p. pc \<noteq> Await_gate n p g"
  shows "rid' \<noteq> rid"
proof
  assume "rid' = rid"
  then show False using assms by (cases pc) (auto simp: orphaned_def)
qed

lemma orphaned_gate_resolved:
  assumes "orphaned rid g w" and "distinct (map fst (loops w))" and "resolved \<noteq> Some g"
  shows "orphaned rid g (gate_resolved P resolved w)"
proof (cases resolved)
  case None
  then show ?thesis using assms by (simp add: gate_resolved_def)
next
  case (Some g')
  then have ne: "g' \<noteq> g" using assms(3) by simp
  show ?thesis
  proof (cases "find (awaits_gate g') (loops w)")
    case None
    then show ?thesis using assms Some by (simp add: gate_resolved_def)
  next
    case found: (Some l)
    obtain rid' callback pc where l: "l = (rid', callback, pc)" by (cases l)
    from find_awaits_gate [OF found [unfolded l] assms(2)] obtain n p where
      m: "map_of (loops w) rid' = Some (callback, pc)" and pc: "pc = Await_gate n p g'" by blast
    have "rid' \<noteq> rid" using orphaned_loop [OF assms(1) m] pc ne by simp
    moreover have "resolvePromptPromise (fst (after_gate P n p (the_room w))) \<noteq> Some g"
      using assms(1) by (simp add: after_gate_resolver orphaned_def)
    ultimately have "orphaned rid g (proceed rid' callback (after_gate P n p (the_room w)) w)"
      using assms(1) by (intro orphaned_proceed)
    then show ?thesis using Some found l pc by (simp add: gate_resolved_def)
  qed
qed

lemma orphaned_frame:
  "resolvePromptPromise rm = resolvePromptPromise (the_room w) \<or> resolvePromptPromise rm = None
   \<Longrightarrow> orphaned rid g w \<Longrightarrow> orphaned rid g (w\<lparr>the_room := rm\<rparr>)"
  "orphaned rid g w \<Longrightarrow> orphaned rid g (w\<lparr>timers := t\<rparr>)"
  "orphaned rid g w \<Longrightarrow> orphaned rid g (w\<lparr>registered := b\<rparr>)"
  "orphaned rid g w \<Longrightarrow> orphaned rid g (w\<lparr>requests := r\<rparr>)"
  by (auto simp: orphaned_def)

lemma orphaned_step:
  assumes o: "orphaned rid g w" and ok: "replies_ok w"
  shows "orphaned rid g (step P w ev)"
proof -
  have d: "distinct (map fst (loops w))" using ok by (simp add: replies_ok_def)
  have res: "resolvePromptPromise (the_room w) \<noteq> Some g" using o by (simp add: orphaned_def)
  have known: "rid < requests w"
  proof -
    from o obtain l where "map_of (loops w) rid = Some l"
      by (cases "map_of (loops w) rid") (auto simp: orphaned_def)
    then show ?thesis using ok by (rule loop_bound [rotated])
  qed
  show ?thesis
  proof (cases ev)
    case (Start_game_request roomCode callback d)
    show ?thesis
    proof (cases "getRoom (registry w) roomCode")
      case None
      then show ?thesis using Start_game_request o known
        by (auto simp: on_start_game_def Let_def answer_def orphaned_def has_key_def)
    next
      case (Some rm)
      then have rm: "rm = the_room w"
        by (auto simp: getRoom_def registry_def split: if_splits)
      have "orphaned rid g (proceed (requests w) callback
              (round_top P d 1 (rm\<lparr>state := STARTING\<rparr>)) (w\<lparr>requests := requests w + 1\<rparr>))"
        using o known res by (intro orphaned_proceed orphaned_frame) (simp_all add: round_top_resolver rm)
      then show ?thesis using Start_game_request Some
        by (simp add: on_start_game_def Let_def startGame_enter_def)
    qed
  next
    case (Join_request roomCode socketId playerName)
    show ?thesis
    proof (cases "registered w")
      case False
      then show ?thesis using Join_request o by (simp add: registry_def joinRoom_def)
    next
      case True
      show ?thesis
      proof (cases "snd (joinRoom (max_players_env P) [(code (the_room w), the_room w)]
                      roomCode socketId playerName)")
        case Nil
        then show ?thesis using Join_request True o by (simp add: registry_def)
      next
        case (Cons a rest)
        obtain c' rm' where a: "a = (c', rm')" by (cases a)
        have "resolvePromptPromise rm' = resolvePromptPromise (the_room w)"
          using Cons a by (intro joinRoom_resolver) simp
        then have "orphaned rid g (w\<lparr>the_room := rm'\<rparr>)"
          using o by (intro orphaned_frame) simp_all
        then show ?thesis using Join_request True Cons a by (simp add: registry_def)
      qed
    qed
  next
    case (Disconnected socketId)
    show ?thesis
    proof (cases "registered w")
      case False
      then show ?thesis using Disconnected o by simp
    next
      case True
      show ?thesis
      proof (cases "removePlayer socketId [(code (the_room w), the_room w)]")
        case Nil
        have "orphaned rid g (w\<lparr>the_room := (the_room w)\<lparr>players :=
                          AList.delete socketId (players (the_room w))\<rparr>,
                       registered := False\<rparr>)"
          using o by (intro orphaned_frame) simp_all
        then show ?thesis using Disconnected True Nil
          by (simp add: registry_def del: removePlayer.simps)
      next
        case (Cons a rest)
        obtain c' rm' where a: "a = (c', rm')" by (cases a)
        have "resolvePromptPromise rm' = resolvePromptPromise (the_room w)"
          using Cons a by (intro removePlayer_resolver) simp
        then have "orphaned rid g (w\<lparr>the_room := rm'\<rparr>)"
          using o by (intro orphaned_frame) simp_all
        then show ?thesis using Disconnected True Cons a
          by (simp add: registry_def del: removePlayer.simps)
      qed
    qed
  next
    case (Prompt_submitted roomCode socketId p)
    show ?thesis
    proof (cases "getRoom (registry w) roomCode")
      case None
      then show ?thesis using Prompt_submitted o by simp
    next
      case (Some rm)
      then have rm: "rm = the_room w"
        by (auto simp: getRoom_def registry_def split: if_splits)
      show ?thesis
      proof (cases "handlePromptSubmission rm socketId p")
        case (Inl e)
        then show ?thesis using Prompt_submitted Some o by simp
      next
        case (Inr x)
        obtain rm1 resolved where x: "x = (rm1, resolved)" by (cases x)
        from submission_resolved [OF Inr [unfolded x]] rm
        have c: "(resolved = None \<and> resolvePromptPromise rm1 = resolvePromptPromise (the_room w))
           \<or> (resolved = resolvePromptPromise (the_room w) \<and> resolvePromptPromise rm1 = None)"
          by simp
        then have r: "resolved \<noteq> Some g" using res by auto
        have "orphaned rid g (w\<lparr>the_room := rm1\<rparr>)"
          using c o by (intro orphaned_frame) auto
        then have "orphaned rid g (gate_resolved P resolved (w\<lparr>the_room := rm1\<rparr>))"
          using d r by (intro orphaned_gate_resolved) simp_all
        then show ?thesis using Prompt_submitted Some Inr x by simp
      qed
    qed
  next
    case (Gate_timer_expires t)
    show ?thesis
    proof (cases "t \<in> set (timers w)")
      case False
      then show ?thesis using Gate_timer_expires o by simp
    next
      case True
      obtain rm1 resolved where x: "deadline_fires (the_room w) = (rm1, resolved)"
        by (cases "deadline_fires (the_room w)")
      from deadline_fires_resolved [OF x]
      have c: "(resolved = None \<and> rm1 = the_room w)
           \<or> (resolved = resolvePromptPromise (the_room w) \<and> resolvePromptPromise rm1 = None)" .
      then have r: "resolved \<noteq> Some g" using res by auto
      have "orphaned rid g (w\<lparr>the_room := rm1, timers := remove1 t (timers w)\<rparr>)"
        using c o by (intro orphaned_frame) auto
      then have "orphaned rid g (gate_resolved P resolved
                    (w\<lparr>the_room := rm1, timers := remove1 t (timers w)\<rparr>))"
        using d r by (intro orphaned_gate_resolved) simp_all
      then show ?thesis using Gate_timer_expires True x by simp
    qed
  next
    case (Original_image_returned rid')
    then show ?thesis using o res
      by (auto simp: original_returned_resolver intro!: orphaned_proceed
          dest!: orphaned_loop [OF o] split: option.splits pc.splits)
  next
    case (View_time_elapsed rid')
    show ?thesis
    proof (cases "map_of (loops w) rid'")
      case None
      then show ?thesis using View_time_elapsed o by simp
    next
      case (Some l)
      obtain callback pc where l: "l = (callback, pc)" by (cases l)
      show ?thesis
      proof (cases "\<exists>n p. pc = Await_view n p")
        case False
        then show ?thesis using View_time_elapsed Some l o by (auto split: pc.splits)
      next
        case True
        then obtain n p where pc: "pc = Await_view n p" by blast
        have ne: "rid' \<noteq> rid" using orphaned_loop [OF o Some [unfolded l]] pc by simp
        have g: "g < gates_opened w" using o by (simp add: orphaned_def)
        have "orphaned rid g (w\<lparr>timers := timers w @ [gates_opened w],
                                 gates_opened := gates_opened w + 1\<rparr>)"
          using o by (auto simp: orphaned_def)
        then have "orphaned rid g (proceed rid' callback
                     (begin_writing (gates_opened w) (the_room w), Await_gate n p (gates_opened w))
                     (w\<lparr>timers := timers w @ [gates_opened w],
                        gates_opened := gates_opened w + 1\<rparr>))"
          using ne g by (intro orphaned_proceed) (simp_all add: begin_writing_def waitForPrompts_def)
        then show ?thesis using View_time_elapsed Some l pc by (simp add: Let_def)
      qed
    qed
  next
    case (Player_image_returned rid')
    then show ?thesis using o res
      by (auto simp: image_returned_resolver intro!: orphaned_proceed
          dest!: orphaned_loop [OF o] split: option.splits pc.splits)
  next
    case (Pause_elapsed rid' d)
    then show ?thesis using o res
      by (auto simp: round_top_resolver intro!: orphaned_proceed
          dest!: orphaned_loop [OF o] split: option.splits pc.splits)
  qed
qed

text \<open>The request of an orphaned loop is never answered, whatever happens later.\<close>

lemma orphaned_never_answered:
  assumes "orphaned rid g w" and "replies_ok w"
  shows "orphaned rid g (run_world P evs w) \<and> \<not> has_key rid (replies (run_world P evs w))"
proof -
  have "orphaned rid g (run_world P evs w) \<and> replies_ok (run_world P evs w)"
    using assms unfolding run_world_def
  proof (induction evs arbitrary: w)
    case Nil
    then show ?case by simp
  next
    case (Cons ev evs)
    have "orphaned rid g (step P w ev)" using Cons.prems by (rule orphaned_step)
    moreover have "replies_ok (step P w ev)" using Cons.prems(2) by (rule step_ok)
    ultimately show ?case using Cons.IH by simp
  qed
  then show ?thesis by (simp add: orphaned_def)
qed







end
